theory Spec2Isabelle
  imports Main "HOL-Library.Word"
begin

section \<open>Errors and host values\<close>

text \<open>
  A JavaScript number that holds an integer, or \<^verbatim>\<open>NaN\<close>, or an infinity. An integer
  that a number holds is one a double represents: below \<open>2 ^ 53\<close> in absolute value
  every integer, above it the multiples of a power of two.
\<close>

datatype number = NaN | Number int | Infinity | MinusInfinity

text \<open>
  The TypeScript sources raise with \<^verbatim>\<open>throw new Error(msg)\<close>; where the message is a
  template literal that ends with a number, the error is \<open>ErrorNum\<close> of the text and
  the number, and the message is the text followed by the host's rendering of the number.
  The host raises a \<^verbatim>\<open>TypeError\<close> when \<^verbatim>\<open>undefined\<close> is converted to a bigint or
  asked for its \<^verbatim>\<open>toString()\<close>, a \<^verbatim>\<open>SyntaxError\<close> when \<^verbatim>\<open>BigInt\<close> is applied
  to a string that is not a numeral, and a \<^verbatim>\<open>RangeError\<close> when a typed array is
  written out of bounds. A raise is the left injection of a sum.
\<close>

datatype error = Error string | ErrorNum string number | TypeError | SyntaxError | RangeError

text \<open>
  A slot read from a JavaScript array: \<open>None\<close> is \<^verbatim>\<open>undefined\<close>, the value of a read
  past the end.
\<close>

type_synonym jsval = "int option"

text \<open>
  \<^verbatim>\<open>toString(radix)\<close> of a bigint, and of a number that holds an integer: the digits of
  the absolute value, most significant first, after a minus sign for a negative value.
\<close>

definition digit_char :: "int \<Rightarrow> char" where
  "digit_char d = ''0123456789abcdef'' ! nat d"

function digits_of :: "int \<Rightarrow> int \<Rightarrow> string" where
  "digits_of radix n =
     (if radix < 2 \<or> n < radix then [digit_char n]
      else digits_of radix (n div radix) @ [digit_char (n mod radix)])"
  by pat_completeness auto
termination
proof (relation "measure (\<lambda>(radix, n). nat n)", goal_cases)
  case 1
  show ?case by simp
next
  case (2 radix n)
  then have "2 \<le> radix" and "radix \<le> n" by simp_all
  then have "n div radix < n" by (simp add: int_div_less_self)
  moreover have "0 < n" using \<open>2 \<le> radix\<close> \<open>radix \<le> n\<close> by simp
  ultimately show ?case by simp
qed

declare digits_of.simps [simp del]

definition toString :: "int \<Rightarrow> int \<Rightarrow> string" where
  "toString radix v =
     (if v < 0 then CHR ''-'' # digits_of radix (- v) else digits_of radix v)"

text \<open>
  \<^verbatim>\<open>x.toString(16)\<close> of a number. The digits are those of the integer; they are the
  host's for every integer below \<open>2 ^ 53\<close> in absolute value.
\<close>

definition number_toString_16 :: "number \<Rightarrow> string" where
  "number_toString_16 x =
     (case x of NaN \<Rightarrow> ''NaN'' | Number v \<Rightarrow> toString 16 v
              | Infinity \<Rightarrow> ''Infinity'' | MinusInfinity \<Rightarrow> ''-Infinity'')"

text \<open>
  The number that an integer becomes: itself below \<open>2 ^ 53\<close> in absolute value, and
  above it the nearest double, which keeps 53 significant bits and rounds a tie to the
  even neighbour; from \<open>2 ^ 1024\<close> on the result is an infinity.
\<close>

function bit_length :: "int \<Rightarrow> nat" where
  "bit_length a = (if a \<le> 0 then 0 else Suc (bit_length (a div 2)))"
  by pat_completeness auto
termination
  by (relation "measure nat") auto

declare bit_length.simps [simp del]

definition round_to_double :: "int \<Rightarrow> number" where
  "round_to_double v =
     (let a = \<bar>v\<bar>
      in if a < 9007199254740992 then Number v
         else (let e = bit_length a - 53;
                   q = a div 2 ^ e;
                   r = a mod 2 ^ e;
                   half = 2 ^ (e - 1);
                   q' = (if r > half \<or> (r = half \<and> odd q) then q + 1 else q);
                   m = q' * 2 ^ e
               in if m \<ge> 2 ^ 1024 then (if v < 0 then MinusInfinity else Infinity)
                  else Number (if v < 0 then - m else m)))"

text \<open>
  Strings are ASCII. White space is the ASCII part of the host's: tab, line feed, vertical
  tab, form feed, carriage return and space.
\<close>

definition is_space :: "char \<Rightarrow> bool" where
  "is_space c = (of_char c \<in> {9, 10, 11, 12, 13, 32 :: int})"

text \<open>The value of a digit character, letters in either case, and whether it is a digit
  of the radix.\<close>

definition char_digit :: "char \<Rightarrow> int option" where
  "char_digit c =
     (let n = (of_char c :: int)
      in if 48 \<le> n \<and> n \<le> 57 then Some (n - 48)
         else if 97 \<le> n \<and> n \<le> 102 then Some (n - 87)
         else if 65 \<le> n \<and> n \<le> 70 then Some (n - 55)
         else None)"

definition is_digit :: "int \<Rightarrow> char \<Rightarrow> bool" where
  "is_digit radix c = (case char_digit c of None \<Rightarrow> False | Some v \<Rightarrow> v < radix)"

definition digits_value :: "int \<Rightarrow> string \<Rightarrow> int" where
  "digits_value radix cs =
     foldl (\<lambda>acc c. acc * radix + (case char_digit c of None \<Rightarrow> 0 | Some v \<Rightarrow> v)) 0 cs"

text \<open>
  \<^verbatim>\<open>parseInt(s, radix)\<close> for radix 10 and 16: leading white space is dropped, then a
  sign, then for radix 16 a prefix \<^verbatim>\<open>0x\<close> or \<^verbatim>\<open>0X\<close>; the longest run of digits that
  follows is the value, converted to a number, and \<^verbatim>\<open>NaN\<close> when there is none.
\<close>

definition parseInt :: "string \<Rightarrow> int \<Rightarrow> number" where
  "parseInt s radix =
     (let S = dropWhile is_space s;
          sign = (if take 1 S = ''-'' then - 1 else 1 :: int);
          S1 = (if take 1 S = ''-'' \<or> take 1 S = ''+'' then drop 1 S else S);
          S2 = (if radix = 16 \<and> (take 2 S1 = ''0x'' \<or> take 2 S1 = ''0X'') then drop 2 S1
                else S1);
          Z = takeWhile (is_digit radix) S2
      in if Z = [] then NaN else round_to_double (sign * digits_value radix Z))"

text \<open>
  \<^verbatim>\<open>BigInt("0x" + s)\<close>: white space at the end is dropped; what remains must be one or
  more hexadecimal digits, or the host raises a \<^verbatim>\<open>SyntaxError\<close>.
\<close>

definition BigInt_0x :: "string \<Rightarrow> error + int" where
  "BigInt_0x s =
     (let body = rev (dropWhile is_space (rev s))
      in if body \<noteq> [] \<and> list_all (is_digit 16) body
         then Inr (digits_value 16 body) else Inl SyntaxError)"

text \<open>\<^verbatim>\<open>s.padStart(n, c)\<close>, \<^verbatim>\<open>s.substr(start, len)\<close>, \<^verbatim>\<open>s.split(c)\<close> and
  \<^verbatim>\<open>parts.join(c)\<close>.\<close>

definition padStart :: "nat \<Rightarrow> char \<Rightarrow> string \<Rightarrow> string" where
  "padStart n c s = replicate (n - length s) c @ s"

definition substr :: "string \<Rightarrow> nat \<Rightarrow> nat \<Rightarrow> string" where
  "substr s start len = take len (drop start s)"

fun split :: "char \<Rightarrow> string \<Rightarrow> string list" where
  "split c [] = [[]]"
| "split c (x # xs) =
     (if x = c then [] # split c xs
      else (case split c xs of [] \<Rightarrow> [[x]] | p # ps \<Rightarrow> (x # p) # ps))"

fun join :: "char list \<Rightarrow> string list \<Rightarrow> string" where
  "join sep [] = []"
| "join sep [p] = p"
| "join sep (p # q # ps) = p @ sep @ join sep (q # ps)"

text \<open>
  Bytes, and the two conversions of Node's \<^verbatim>\<open>Buffer\<close>: \<^verbatim>\<open>Buffer.from(s, 'hex')\<close>
  decodes pairs of hexadecimal digits and stops at the first pair that is not one (a last
  single digit is dropped); \<^verbatim>\<open>buf.toString('hex')\<close> writes two digits for each byte.
\<close>

type_synonym byte = "8 word"

fun Buffer_from_hex :: "string \<Rightarrow> byte list" where
  "Buffer_from_hex (a # b # rest) =
     (if is_digit 16 a \<and> is_digit 16 b
      then word_of_int (digits_value 16 [a, b]) # Buffer_from_hex rest else [])"
| "Buffer_from_hex _ = []"

definition Buffer_toString_hex :: "byte list \<Rightarrow> string" where
  "Buffer_toString_hex buf = concat (map (\<lambda>b. padStart 2 CHR ''0'' (digits_of 16 (uint b))) buf)"

text \<open>
  Storing a number in a \<^verbatim>\<open>Uint8Array\<close>: \<^verbatim>\<open>NaN\<close> and the infinities are stored as 0,
  an integer modulo 256.
\<close>

definition to_uint8 :: "number \<Rightarrow> byte" where
  "to_uint8 x = (case x of NaN \<Rightarrow> 0 | Number v \<Rightarrow> word_of_int v
                          | Infinity \<Rightarrow> 0 | MinusInfinity \<Rightarrow> 0)"

text \<open>
  \<^verbatim>\<open>target.set(source, offset)\<close> on a \<^verbatim>\<open>Uint8Array\<close>; the host raises a
  \<^verbatim>\<open>RangeError\<close> when the source does not fit.
\<close>

definition uint8_set :: "byte list \<Rightarrow> byte list \<Rightarrow> nat \<Rightarrow> error + byte list" where
  "uint8_set target source offset =
     (if offset + length source > length target then Inl RangeError
      else Inr (take offset target @ source @ drop (offset + length source) target))"

text \<open>The four bytes written by \<^verbatim>\<open>setUint32(0, n, false)\<close> and
  \<^verbatim>\<open>writeUint32BE(n, 0)\<close>.\<close>

definition uint32_be :: "int \<Rightarrow> byte list" where
  "uint32_be n = [word_of_int (n div 16777216), word_of_int (n div 65536),
                  word_of_int (n div 256), word_of_int n]"

section \<open>Hash domain (crypto.ts)\<close>

text \<open>
  \<^verbatim>\<open>poseidonHash(inputs)\<close>, given the instance \<open>poseidon\<close> that \<^verbatim>\<open>getPoseidon()\<close>
  returns; it comes from circomlibjs and is applied to the input array. (The functions with
  the module variable that caches the instance follow below; \<open>poseidonHash_cached_eq\<close>
  relates the two.) With more than two inputs the function
  calls itself on the first two and then, in a loop over \<^verbatim>\<open>i = 2 .. length - 1\<close>, on
  \<^verbatim>\<open>[result, inputs[i]]\<close>.
\<close>

function poseidonHash :: "(int list \<Rightarrow> int) \<Rightarrow> int list \<Rightarrow> int"
  and poseidonHash_loop :: "(int list \<Rightarrow> int) \<Rightarrow> int list \<Rightarrow> nat \<Rightarrow> int \<Rightarrow> int"
where
  "poseidonHash poseidon inputs =
     (if length inputs > 2
      then poseidonHash_loop poseidon inputs 2 (poseidonHash poseidon [inputs ! 0, inputs ! 1])
      else poseidon inputs)"
| "poseidonHash_loop poseidon inputs i result =
     (if i < length inputs
      then poseidonHash_loop poseidon inputs (i + 1) (poseidonHash poseidon [result, inputs ! i])
      else result)"
  by pat_completeness auto
termination
  by (relation "measure (\<lambda>a. case a of
          Inl (p, inputs) \<Rightarrow> (if length inputs > 2 then length inputs + 1 else 0)
        | Inr (p, inputs, i, r) \<Rightarrow> 1 + (length inputs - i))") auto

declare poseidonHash.simps [simp del] poseidonHash_loop.simps [simp del]

text \<open>The two-input hash \<open>H(a, b)\<close>: \<^verbatim>\<open>poseidonHash([a, b])\<close>.\<close>

definition H2 :: "(int list \<Rightarrow> int) \<Rightarrow> int \<Rightarrow> int \<Rightarrow> int" where
  "H2 poseidon a b = poseidonHash poseidon [a, b]"

text \<open>
  The same function on array slots: circomlibjs converts every input with \<^verbatim>\<open>F.e\<close>, which
  raises a \<^verbatim>\<open>TypeError\<close> on \<^verbatim>\<open>undefined\<close>.
\<close>

definition poseidonHash_slots :: "(int list \<Rightarrow> int) \<Rightarrow> jsval list \<Rightarrow> error + int" where
  "poseidonHash_slots poseidon inputs =
     (if None \<in> set inputs then Inl TypeError
      else Inr (poseidonHash poseidon (map the inputs)))"

text \<open>\<^verbatim>\<open>computeCommitment(value, label, nullifier, secret)\<close>.\<close>

definition computeCommitment :: "(int list \<Rightarrow> int) \<Rightarrow> int \<Rightarrow> int \<Rightarrow> int \<Rightarrow> int \<Rightarrow> int" where
  "computeCommitment poseidon value label nullifier secret =
     (let precommitment = poseidonHash poseidon [nullifier, secret];
          hashValueLabel = poseidonHash poseidon [value, label];
          commitment = poseidonHash poseidon [hashValueLabel, precommitment]
      in commitment)"

text \<open>\<^verbatim>\<open>computeNullifierHash(nullifier)\<close>.\<close>

definition computeNullifierHash :: "(int list \<Rightarrow> int) \<Rightarrow> int \<Rightarrow> int" where
  "computeNullifierHash poseidon nullifier = poseidonHash poseidon [nullifier]"

text \<open>
  The module variable \<^verbatim>\<open>poseidonInstance\<close>: \<open>None\<close> is \<^verbatim>\<open>null\<close>, its value until
  the first use. \<^verbatim>\<open>buildPoseidon()\<close> of circomlibjs is the parameter \<open>buildPoseidon\<close>,
  the instance it gives.
\<close>

type_synonym poseidon_state = "(int list \<Rightarrow> int) option"

text \<open>\<^verbatim>\<open>getPoseidon()\<close>: the instance and the module variable after the call.\<close>

definition getPoseidon ::
  "(int list \<Rightarrow> int) \<Rightarrow> poseidon_state \<Rightarrow> (int list \<Rightarrow> int) \<times> poseidon_state" where
  "getPoseidon buildPoseidon poseidonInstance =
     (case poseidonInstance of
        None \<Rightarrow> (buildPoseidon, Some buildPoseidon)
      | Some instance \<Rightarrow> (instance, Some instance))"

text \<open>
  \<^verbatim>\<open>poseidonHash(inputs)\<close> and \<^verbatim>\<open>computeCommitment(value, label, nullifier, secret)\<close>
  with the module variable: each takes the variable as it is before the call and gives the
  result and the variable after the call. Every call of \<^verbatim>\<open>poseidonHash\<close>, the recursive
  ones too, starts with \<^verbatim>\<open>getPoseidon()\<close>.
\<close>

function poseidonHash_cached ::
  "(int list \<Rightarrow> int) \<Rightarrow> poseidon_state \<Rightarrow> int list \<Rightarrow> int \<times> poseidon_state"
  and poseidonHash_cached_loop ::
  "(int list \<Rightarrow> int) \<Rightarrow> poseidon_state \<Rightarrow> int list \<Rightarrow> nat \<Rightarrow> int \<Rightarrow> int \<times> poseidon_state"
where
  "poseidonHash_cached buildPoseidon st inputs =
     (case getPoseidon buildPoseidon st of (poseidon, st1) \<Rightarrow>
        if length inputs > 2
        then (case poseidonHash_cached buildPoseidon st1 [inputs ! 0, inputs ! 1] of
                (result, st2) \<Rightarrow> poseidonHash_cached_loop buildPoseidon st2 inputs 2 result)
        else (poseidon inputs, st1))"
| "poseidonHash_cached_loop buildPoseidon st inputs i result =
     (if i < length inputs
      then (case poseidonHash_cached buildPoseidon st [result, inputs ! i] of
              (result', st') \<Rightarrow> poseidonHash_cached_loop buildPoseidon st' inputs (i + 1) result')
      else (result, st))"
  by pat_completeness auto
termination
  by (relation "measure (\<lambda>a. case a of
          Inl (b, st, inputs) \<Rightarrow> (if length inputs > 2 then length inputs + 1 else 0)
        | Inr (b, st, inputs, i, r) \<Rightarrow> 1 + (length inputs - i))") auto

declare poseidonHash_cached.simps [simp del] poseidonHash_cached_loop.simps [simp del]

definition computeCommitment_cached ::
  "(int list \<Rightarrow> int) \<Rightarrow> poseidon_state \<Rightarrow> int \<Rightarrow> int \<Rightarrow> int \<Rightarrow> int \<Rightarrow> int \<times> poseidon_state" where
  "computeCommitment_cached buildPoseidon st v l n s =
     (case poseidonHash_cached buildPoseidon st [n, s] of (precommitment, st1) \<Rightarrow>
      case poseidonHash_cached buildPoseidon st1 [v, l] of (hashValueLabel, st2) \<Rightarrow>
      case poseidonHash_cached buildPoseidon st2 [hashValueLabel, precommitment] of
        (commitment, st3) \<Rightarrow> (commitment, st3))"


section \<open>Accumulator (merkle.ts)\<close>

record LeanMerkleTree =
  leaves :: "int list"
  depth :: nat

text \<open>
  \<^verbatim>\<open>addLeaf(leaf)\<close>: the result is the raise or the index, together with the tree after
  the call.
\<close>

definition addLeaf :: "LeanMerkleTree \<Rightarrow> int \<Rightarrow> (error + nat) \<times> LeanMerkleTree" where
  "addLeaf t leaf =
     (let index = length (leaves t);
          maxLeaves = 2 ^ depth t
      in if index \<ge> maxLeaves then (Inl (Error ''Tree at capacity''), t)
         else (Inr index, t\<lparr>leaves := leaves t @ [leaf]\<rparr>))"

text \<open>
  \<^verbatim>\<open>TREE_DEPTH\<close> and the table \<^verbatim>\<open>ZERO_VALUES\<close>. \<open>zeroValues poseidon i\<close> is the
  array after the loop of \<^verbatim>\<open>initializeZeroValues\<close> has stored index \<open>i\<close>: it starts as
  \<^verbatim>\<open>[0]\<close>, and each pass reads slot \<open>i - 1\<close> and stores at index \<open>i\<close>, one past the
  end, which extends the array by one. The table is cached in a module variable; the
  cached array is the one computed here.
\<close>

definition TREE_DEPTH :: nat where
  "TREE_DEPTH = 8"

fun zeroValues :: "(int list \<Rightarrow> int) \<Rightarrow> nat \<Rightarrow> int list" where
  "zeroValues poseidon 0 = [0]"
| "zeroValues poseidon (Suc i) =
     (let ZERO_VALUES = zeroValues poseidon i;
          prevZero = ZERO_VALUES ! i
      in ZERO_VALUES @ [poseidonHash poseidon [prevZero, prevZero]])"

definition initializeZeroValues :: "(int list \<Rightarrow> int) \<Rightarrow> int list" where
  "initializeZeroValues poseidon = zeroValues poseidon TREE_DEPTH"

text \<open>Reading \<^verbatim>\<open>xs[i]\<close>: past the end the value is \<^verbatim>\<open>undefined\<close>.\<close>

definition slot :: "int list \<Rightarrow> nat \<Rightarrow> jsval" where
  "slot xs i = (if i < length xs then Some (xs ! i) else None)"

definition slot_of :: "jsval list \<Rightarrow> nat \<Rightarrow> jsval" where
  "slot_of xs i = (if i < length xs then xs ! i else None)"

text \<open>\<^verbatim>\<open>getZeroValue(level)\<close>: the guarded read of the table.\<close>

definition getZeroValue :: "(int list \<Rightarrow> int) \<Rightarrow> int \<Rightarrow> error + int" where
  "getZeroValue poseidon level =
     (let zeros = initializeZeroValues poseidon
      in if level < 0 \<or> level > int TREE_DEPTH
         then Inl (ErrorNum ''Invalid level: '' (Number level))
         else Inr (zeros ! nat level))"

text \<open>\<^verbatim>\<open>new LeanMerkleTree(depth)\<close>.\<close>

definition new_LeanMerkleTree :: "nat \<Rightarrow> LeanMerkleTree" where
  "new_LeanMerkleTree d = \<lparr>leaves = [], depth = d\<rparr>"

text \<open>
  The inner loop that computeRoot and getMerklePath share: it walks the current layer two
  slots at a time, pairing a last unpaired node with \<^verbatim>\<open>zeroAtLevel\<close>, and pushes each
  parent. A hash of \<^verbatim>\<open>undefined\<close> raises and ends the loop.
\<close>

fun buildNextLayer :: "(int list \<Rightarrow> int) \<Rightarrow> jsval \<Rightarrow> jsval list \<Rightarrow> error + jsval list" where
  "buildNextLayer poseidon zeroAtLevel [] = Inr []"
| "buildNextLayer poseidon zeroAtLevel [left] =
     (case poseidonHash_slots poseidon [left, zeroAtLevel] of
        Inl e \<Rightarrow> Inl e
      | Inr parent \<Rightarrow> Inr [Some parent])"
| "buildNextLayer poseidon zeroAtLevel (left # right # rest) =
     (case poseidonHash_slots poseidon [left, right] of
        Inl e \<Rightarrow> Inl e
      | Inr parent \<Rightarrow>
          (case buildNextLayer poseidon zeroAtLevel rest of
             Inl e \<Rightarrow> Inl e
           | Inr nextLayer \<Rightarrow> Inr (Some parent # nextLayer)))"

lemma buildNextLayer_length:
  "buildNextLayer poseidon z xs = Inr ys \<Longrightarrow> length ys = (length xs + 1) div 2"
  by (induction poseidon z xs arbitrary: ys rule: buildNextLayer.induct)
     (auto split: sum.splits)

text \<open>
  The \<^verbatim>\<open>while\<close> loop of \<^verbatim>\<open>computeRoot\<close>, from the state (currentLayer, level) to the
  layer it ends with.
\<close>

function computeRoot_loop ::
  "(int list \<Rightarrow> int) \<Rightarrow> int list \<Rightarrow> nat \<Rightarrow> jsval list \<Rightarrow> nat \<Rightarrow> error + jsval list"
where
  "computeRoot_loop poseidon zeros d currentLayer level =
     (if length currentLayer > 1 \<or> level < d then
        (let zeroAtLevel = slot zeros level in
         case buildNextLayer poseidon zeroAtLevel currentLayer of
           Inl e \<Rightarrow> Inl e
         | Inr nextLayer \<Rightarrow>
             (let nextLayer' = (if length nextLayer = 0 then nextLayer @ [zeroAtLevel]
                                else nextLayer)
              in if level + 1 \<ge> d \<and> length nextLayer' = 1 then Inr nextLayer'
                 else computeRoot_loop poseidon zeros d nextLayer' (level + 1)))
      else Inr currentLayer)"
  by pat_completeness auto
termination
proof (relation "measures [\<lambda>(p, zs, d, cur, level). max 1 (length cur),
                           \<lambda>(p, zs, d, cur, level). d - level]", goal_cases)
  case 1
  show ?case by simp
next
  case (2 poseidon zeros d currentLayer level zeroAtLevel nextLayer nextLayer')
  from 2(3) have len: "length nextLayer = (length currentLayer + 1) div 2"
    using buildNextLayer_length 2(2) by metis
  show ?case
  proof (cases "length currentLayer > 1")
    case True
    with len 2(4) show ?thesis by (auto split: if_splits)
  next
    case False
    with 2(1) have "level < d" by simp
    with False len 2(4) show ?thesis by (auto split: if_splits)
  qed
qed

declare computeRoot_loop.simps [simp del]

text \<open>\<^verbatim>\<open>computeRoot()\<close>: the result is \<^verbatim>\<open>zeros[depth]\<close> or \<^verbatim>\<open>currentLayer[0]\<close>.\<close>

definition computeRoot :: "(int list \<Rightarrow> int) \<Rightarrow> LeanMerkleTree \<Rightarrow> error + jsval" where
  "computeRoot poseidon t =
     (let zeros = initializeZeroValues poseidon
      in if length (leaves t) = 0 then Inr (slot zeros (depth t))
         else (case computeRoot_loop poseidon zeros (depth t) (map Some (leaves t)) 0 of
                 Inl e \<Rightarrow> Inl e
               | Inr currentLayer \<Rightarrow> Inr (slot_of currentLayer 0)))"

text \<open>
  The \<^verbatim>\<open>for\<close> loop of \<^verbatim>\<open>getMerklePath\<close>, from the state (currentLayer, currentIndex,
  level, siblings). The index is at least 0 once the guard of \<^verbatim>\<open>getMerklePath\<close> has
  passed, so it is a natural number here; the sibling of an odd index is the index before.
\<close>

function getMerklePath_loop ::
  "(int list \<Rightarrow> int) \<Rightarrow> int list \<Rightarrow> nat \<Rightarrow> jsval list \<Rightarrow> nat \<Rightarrow> nat \<Rightarrow> jsval list
   \<Rightarrow> error + jsval list"
where
  "getMerklePath_loop poseidon zeros d currentLayer currentIndex level siblings =
     (if level < d then
        (let zeroAtLevel = slot zeros level;
             siblingIndex = (if currentIndex mod 2 = 0 then currentIndex + 1
                             else currentIndex - 1);
             siblings' = siblings @ [if siblingIndex < length currentLayer
                                     then currentLayer ! siblingIndex else zeroAtLevel]
         in case buildNextLayer poseidon zeroAtLevel currentLayer of
              Inl e \<Rightarrow> Inl e
            | Inr nextLayer \<Rightarrow>
                (let nextLayer' = (if length nextLayer = 0
                                   then nextLayer @ [slot zeros (level + 1)] else nextLayer)
                 in getMerklePath_loop poseidon zeros d nextLayer' (currentIndex div 2)
                      (level + 1) siblings'))
      else Inr siblings)"
  by pat_completeness auto
termination
  by (relation "measure (\<lambda>(p, zs, d, cur, idx, level, sibs). d - level)") auto

declare getMerklePath_loop.simps [simp del]

text \<open>\<^verbatim>\<open>getMerklePath(leafIndex)\<close>.\<close>

definition getMerklePath ::
  "(int list \<Rightarrow> int) \<Rightarrow> LeanMerkleTree \<Rightarrow> int \<Rightarrow> error + jsval list" where
  "getMerklePath poseidon t leafIndex =
     (if leafIndex < 0 \<or> leafIndex \<ge> int (length (leaves t))
      then Inl (ErrorNum ''Invalid leaf index: '' (Number leafIndex))
      else getMerklePath_loop poseidon (initializeZeroValues poseidon) (depth t)
             (map Some (leaves t)) (nat leafIndex) 0 [])"

text \<open>
  The \<^verbatim>\<open>for\<close> loop of \<^verbatim>\<open>verifyProof\<close>, from the state (i, currentHash, currentIndex).
  The index is any integer: \<^verbatim>\<open>currentIndex % 2 === 0\<close> holds for the even ones, and
  \<^verbatim>\<open>Math.floor(currentIndex / 2)\<close> rounds down.
\<close>

function verifyProof_loop ::
  "(int list \<Rightarrow> int) \<Rightarrow> nat \<Rightarrow> jsval list \<Rightarrow> nat \<Rightarrow> int \<Rightarrow> int \<Rightarrow> error + int"
where
  "verifyProof_loop poseidon d siblings i currentHash currentIndex =
     (if i < d then
        (let sibling = slot_of siblings i;
             isLeft = (currentIndex mod 2 = 0)
         in case (if isLeft then poseidonHash_slots poseidon [Some currentHash, sibling]
                  else poseidonHash_slots poseidon [sibling, Some currentHash]) of
              Inl e \<Rightarrow> Inl e
            | Inr currentHash' \<Rightarrow>
                verifyProof_loop poseidon d siblings (i + 1) currentHash' (currentIndex div 2))
      else Inr currentHash)"
  by pat_completeness auto
termination
  by (relation "measure (\<lambda>(p, d, sibs, i, h, idx). d - i)") auto

declare verifyProof_loop.simps [simp del]

text \<open>\<^verbatim>\<open>verifyProof(leaf, leafIndex, siblings, root)\<close>.\<close>

definition verifyProof ::
  "(int list \<Rightarrow> int) \<Rightarrow> LeanMerkleTree \<Rightarrow> int \<Rightarrow> int \<Rightarrow> jsval list \<Rightarrow> jsval \<Rightarrow> error + bool"
where
  "verifyProof poseidon t leaf leafIndex siblings root =
     (if length siblings \<noteq> depth t then Inr False
      else (case verifyProof_loop poseidon (depth t) siblings 0 leaf leafIndex of
              Inl e \<Rightarrow> Inl e
            | Inr currentHash \<Rightarrow> Inr (Some currentHash = root)))"

text \<open>
  The state of a tree of depth \<open>d\<close> after the leaves \<open>xs\<close> have been inserted one after
  the other with \<open>addLeaf\<close>; an insert that raises leaves the tree as it is.
\<close>

definition inserts :: "nat \<Rightarrow> int list \<Rightarrow> LeanMerkleTree" where
  "inserts d xs = foldl (\<lambda>t leaf. snd (addLeaf t leaf)) (new_LeanMerkleTree d) xs"

text \<open>
  The spec's reference: \<open>zero[0] = 0\<close>, \<open>zero[i] = H(zero[i-1], zero[i-1])\<close>, and the root
  of the full binary tree of depth \<open>d\<close> whose first leaves are \<open>xs\<close> and whose other
  leaves are \<open>zero[0]\<close>.
\<close>

fun spec_zero :: "(int \<Rightarrow> int \<Rightarrow> int) \<Rightarrow> nat \<Rightarrow> int" where
  "spec_zero H 0 = 0"
| "spec_zero H (Suc i) = H (spec_zero H i) (spec_zero H i)"

fun spec_full_tree_root :: "(int \<Rightarrow> int \<Rightarrow> int) \<Rightarrow> nat \<Rightarrow> int list \<Rightarrow> int" where
  "spec_full_tree_root H 0 xs = (case xs of [] \<Rightarrow> spec_zero H 0 | x # _ \<Rightarrow> x)"
| "spec_full_tree_root H (Suc d) xs =
     H (spec_full_tree_root H d (take (2 ^ d) xs))
       (spec_full_tree_root H d (drop (2 ^ d) xs))"

subsection \<open>Layers, roots and paths as functions on lists of integers\<close>

text \<open>
  When no slot is \<^verbatim>\<open>undefined\<close> the loops above compute these functions:
  \<open>next_layer\<close> is one pass of the inner loop, \<open>padded_root H k L xs\<close> is the root of
  the full tree of height \<open>k\<close> over the nodes \<open>xs\<close> of level \<open>L\<close>, the missing nodes
  being \<open>zero[L]\<close>, \<open>pure_path\<close> is the list of siblings and \<open>pure_fold\<close> the fold of
  verifyProof.
\<close>

fun next_layer :: "(int \<Rightarrow> int \<Rightarrow> int) \<Rightarrow> int \<Rightarrow> int list \<Rightarrow> int list" where
  "next_layer H z [] = []"
| "next_layer H z [l] = [H l z]"
| "next_layer H z (l # r # rest) = H l r # next_layer H z rest"

fun padded_root :: "(int \<Rightarrow> int \<Rightarrow> int) \<Rightarrow> nat \<Rightarrow> nat \<Rightarrow> int list \<Rightarrow> int" where
  "padded_root H 0 L xs = (case xs of [] \<Rightarrow> spec_zero H L | x # _ \<Rightarrow> x)"
| "padded_root H (Suc k) L xs =
     H (padded_root H k L (take (2 ^ k) xs)) (padded_root H k L (drop (2 ^ k) xs))"

fun pure_path :: "(int \<Rightarrow> int \<Rightarrow> int) \<Rightarrow> nat \<Rightarrow> nat \<Rightarrow> int list \<Rightarrow> nat \<Rightarrow> int list" where
  "pure_path H 0 L cur idx = []"
| "pure_path H (Suc k) L cur idx =
     (let sidx = (if even idx then idx + 1 else idx - 1)
      in (if sidx < length cur then cur ! sidx else spec_zero H L)
         # pure_path H k (Suc L) (next_layer H (spec_zero H L) cur) (idx div 2))"

fun pure_fold :: "(int \<Rightarrow> int \<Rightarrow> int) \<Rightarrow> int list \<Rightarrow> int \<Rightarrow> nat \<Rightarrow> int" where
  "pure_fold H [] h idx = h"
| "pure_fold H (s # ss) h idx =
     pure_fold H ss (if even idx then H h s else H s h) (idx div 2)"

section \<open>Buffers and notes (crypto.ts)\<close>

definition SNARK_SCALAR_FIELD :: int where
  "SNARK_SCALAR_FIELD =
     21888242871839275222246405745257275088548364400416034343698204186575808495617"

text \<open>\<^verbatim>\<open>bigintToBuffer(value)\<close> and \<^verbatim>\<open>bufferToBigint(buffer)\<close>.\<close>

definition bigintToBuffer :: "int \<Rightarrow> byte list" where
  "bigintToBuffer v =
     (let hex = padStart 64 CHR ''0'' (toString 16 v) in Buffer_from_hex hex)"

definition bufferToBigint :: "byte list \<Rightarrow> error + int" where
  "bufferToBigint buffer = BigInt_0x (Buffer_toString_hex buffer)"

record DepositNote =
  nullifier :: int
  secret :: int
  note_value :: int
  label :: int
  leafIndex :: number

text \<open>\<^verbatim>\<open>encodeNote(note)\<close>.\<close>

definition encodeNote :: "DepositNote \<Rightarrow> string" where
  "encodeNote note =
     (let parts = [''opaque'', ''1'',
                   toString 16 (nullifier note),
                   toString 16 (secret note),
                   toString 16 (note_value note),
                   toString 16 (label note),
                   number_toString_16 (leafIndex note)]
      in join ''-'' parts)"

text \<open>\<^verbatim>\<open>decodeNote(noteString)\<close>.\<close>

definition decodeNote :: "string \<Rightarrow> error + DepositNote" where
  "decodeNote noteString =
     (let parts = split CHR ''-'' noteString
      in if length parts \<noteq> 7 \<or> parts ! 0 \<noteq> ''opaque''
         then Inl (Error ''Invalid note format'')
         else (let version = parseInt (parts ! 1) 10
               in if version \<noteq> Number 1
                  then Inl (ErrorNum ''Unsupported note version: '' version)
                  else (case BigInt_0x (parts ! 2) of Inl e \<Rightarrow> Inl e | Inr n \<Rightarrow>
                        (case BigInt_0x (parts ! 3) of Inl e \<Rightarrow> Inl e | Inr s \<Rightarrow>
                         (case BigInt_0x (parts ! 4) of Inl e \<Rightarrow> Inl e | Inr v \<Rightarrow>
                          (case BigInt_0x (parts ! 5) of Inl e \<Rightarrow> Inl e | Inr l \<Rightarrow>
                             Inr \<lparr>nullifier = n, secret = s, note_value = v, label = l,
                                  leafIndex = parseInt (parts ! 6) 16\<rparr>))))))"

section \<open>Proof and signal codec (zkproof.ts)\<close>

text \<open>Sequencing of steps that may raise.\<close>

definition and_then :: "error + 'a \<Rightarrow> ('a \<Rightarrow> error + 'b) \<Rightarrow> error + 'b" where
  "and_then m f = (case m of Inl e \<Rightarrow> Inl e | Inr x \<Rightarrow> f x)"

text \<open>
  \<^verbatim>\<open>fieldElementToBytes(value)\<close>. The argument is the bigint \<^verbatim>\<open>BigInt(value)\<close> of the
  decimal string; byte \<open>i\<close> is \<^verbatim>\<open>parseInt(hex.substr(i * 2, 2), 16)\<close> stored in a
  \<^verbatim>\<open>Uint8Array(32)\<close>.
\<close>

definition fieldElementToBytes :: "int \<Rightarrow> byte list" where
  "fieldElementToBytes bi =
     (let hex = padStart 64 CHR ''0'' (toString 16 bi)
      in map (\<lambda>i. to_uint8 (parseInt (substr hex (i * 2) 2) 16)) [0..<32])"

text \<open>\<^verbatim>\<open>g1PointToBytes(point)\<close> and \<^verbatim>\<open>g2PointToBytes(point)\<close>.\<close>

definition g1PointToBytes :: "int \<times> int \<times> int \<Rightarrow> error + byte list" where
  "g1PointToBytes point =
     (case point of (p0, p1, p2) \<Rightarrow>
        (let xBytes = fieldElementToBytes p0;
             yBytes = fieldElementToBytes p1;
             result = replicate 64 0
         in and_then (uint8_set result xBytes 0) (\<lambda>result.
              uint8_set result yBytes 32)))"

definition g2PointToBytes ::
  "(int \<times> int) \<times> (int \<times> int) \<times> (int \<times> int) \<Rightarrow> error + byte list" where
  "g2PointToBytes point =
     (case point of ((p00, p01), (p10, p11), p2) \<Rightarrow>
        (let x0Bytes = fieldElementToBytes p00;
             x1Bytes = fieldElementToBytes p01;
             y0Bytes = fieldElementToBytes p10;
             y1Bytes = fieldElementToBytes p11;
             result = replicate 128 0
         in and_then (uint8_set result x0Bytes 0) (\<lambda>result.
            and_then (uint8_set result x1Bytes 32) (\<lambda>result.
            and_then (uint8_set result y0Bytes 64) (\<lambda>result.
              uint8_set result y1Bytes 96)))))"

record Groth16Proof =
  pi_a :: "int \<times> int \<times> int"
  pi_b :: "(int \<times> int) \<times> (int \<times> int) \<times> (int \<times> int)"
  pi_c :: "int \<times> int \<times> int"
  protocol :: string
  curve :: string

text \<open>\<^verbatim>\<open>serializeProofForSoroban(proof)\<close>.\<close>

definition serializeProofForSoroban :: "Groth16Proof \<Rightarrow> error + byte list" where
  "serializeProofForSoroban proof =
     and_then (g1PointToBytes (pi_a proof)) (\<lambda>aBytes.
     and_then (g2PointToBytes (pi_b proof)) (\<lambda>bBytes.
     and_then (g1PointToBytes (pi_c proof)) (\<lambda>cBytes.
       (let result = replicate 256 0
        in and_then (uint8_set result aBytes 0) (\<lambda>result.
           and_then (uint8_set result bBytes 64) (\<lambda>result.
             uint8_set result cBytes 192))))))"

text \<open>
  \<^verbatim>\<open>serializePublicSignalsForSoroban(publicSignals)\<close>: the loop over \<open>i\<close> from the
  state (i, bytes), then the function. The signals are the bigints of the strings.
\<close>

function serializePublicSignals_loop :: "int list \<Rightarrow> nat \<Rightarrow> byte list \<Rightarrow> error + byte list"
where
  "serializePublicSignals_loop publicSignals i bytes =
     (if i < length publicSignals then
        (let fieldBytes = fieldElementToBytes (publicSignals ! i)
         in and_then (uint8_set bytes fieldBytes (4 + i * 32)) (\<lambda>bytes.
              serializePublicSignals_loop publicSignals (i + 1) bytes))
      else Inr bytes)"
  by pat_completeness auto
termination
  by (relation "measure (\<lambda>(sigs, i, bytes). length sigs - i)") auto

declare serializePublicSignals_loop.simps [simp del]

definition serializePublicSignalsForSoroban :: "int list \<Rightarrow> error + byte list" where
  "serializePublicSignalsForSoroban publicSignals =
     (let bytes = replicate (4 + length publicSignals * 32) 0
      in and_then (uint8_set bytes (uint32_be (int (length publicSignals))) 0) (\<lambda>bytes.
           serializePublicSignals_loop publicSignals 0 bytes))"

text \<open>
  \<^verbatim>\<open>createWithdrawCircuitInput(params)\<close>. The state root and the state siblings come
  from the Merkle proof, so a slot may be \<^verbatim>\<open>undefined\<close>, whose \<^verbatim>\<open>toString()\<close>
  raises a \<^verbatim>\<open>TypeError\<close>.
\<close>

record WithdrawParams =
  params_withdrawnValue :: int
  params_stateRoot :: jsval
  params_associationRoot :: int
  params_label :: int
  params_value :: int
  params_nullifier :: int
  params_secret :: int
  params_stateSiblings :: "jsval list"
  params_stateIndex :: int
  params_labelIndex :: int
  params_labelSiblings :: "int list"

record WithdrawCircuitInput =
  in_withdrawnValue :: string
  in_stateRoot :: string
  in_associationRoot :: string
  in_label :: string
  in_value :: string
  in_nullifier :: string
  in_secret :: string
  in_stateSiblings :: "string list"
  in_stateIndex :: string
  in_labelIndex :: string
  in_labelSiblings :: "string list"

text \<open>\<^verbatim>\<open>while (xs.length < n) xs.push(BigInt(0))\<close>.\<close>

function push_zeros :: "nat \<Rightarrow> jsval list \<Rightarrow> jsval list" where
  "push_zeros n xs = (if length xs < n then push_zeros n (xs @ [Some 0]) else xs)"
  by pat_completeness auto
termination
  by (relation "measure (\<lambda>(n, xs). n - length xs)") auto

declare push_zeros.simps [simp del]

text \<open>\<^verbatim>\<open>x.toString()\<close> on a slot, and \<^verbatim>\<open>xs.map(s => s.toString())\<close>.\<close>

definition slot_toString :: "jsval \<Rightarrow> error + string" where
  "slot_toString x = (case x of None \<Rightarrow> Inl TypeError | Some v \<Rightarrow> Inr (toString 10 v))"

fun map_toString :: "jsval list \<Rightarrow> error + string list" where
  "map_toString [] = Inr []"
| "map_toString (x # xs) =
     and_then (slot_toString x) (\<lambda>s.
     and_then (map_toString xs) (\<lambda>ss. Inr (s # ss)))"

definition createWithdrawCircuitInput :: "WithdrawParams \<Rightarrow> error + WithdrawCircuitInput" where
  "createWithdrawCircuitInput params =
     (let stateSiblings = take 8 (push_zeros 8 (params_stateSiblings params));
          labelSiblings = push_zeros 2 (map Some (params_labelSiblings params))
      in and_then (slot_toString (params_stateRoot params)) (\<lambda>stateRoot.
         and_then (map_toString stateSiblings) (\<lambda>stateSiblings.
         and_then (map_toString labelSiblings) (\<lambda>labelSiblings.
           Inr \<lparr>in_withdrawnValue = toString 10 (params_withdrawnValue params),
                in_stateRoot = stateRoot,
                in_associationRoot = toString 10 (params_associationRoot params),
                in_label = toString 10 (params_label params),
                in_value = toString 10 (params_value params),
                in_nullifier = toString 10 (params_nullifier params),
                in_secret = toString 10 (params_secret params),
                in_stateSiblings = stateSiblings,
                in_stateIndex = toString 10 (params_stateIndex params),
                in_labelIndex = toString 10 (params_labelIndex params),
                in_labelSiblings = labelSiblings\<rparr>))))"

text \<open>
  The value of a sequence of bytes read as a big-endian integer: what a reader of a
  32-byte word gets.
\<close>

definition be_value :: "byte list \<Rightarrow> int" where
  "be_value bs = foldl (\<lambda>acc b. acc * 256 + uint b) 0 bs"

section \<open>Privacy pool service (privacyPool.ts)\<close>

text \<open>
  The contract client and the prover are outside the repository. What they answer is the
  environment of the handlers: a read call either raises or gives \<^verbatim>\<open>result.result\<close>,
  which may be \<^verbatim>\<open>undefined\<close>; \<^verbatim>\<open>client.withdraw(...)\<close> followed by
  \<^verbatim>\<open>tx.signAndSend(...)\<close> either raises or gives the messages of \<^verbatim>\<open>result.result\<close>
  and the transaction hash; \<^verbatim>\<open>generateWithdrawProof\<close> either raises or gives the proof
  and the public signals.
\<close>

record SendResult =
  send_result :: "string list option"
  send_txHash :: "string option"

record Contract =
  get_commitments :: "error + byte list list option"
  get_association_root :: "error + byte list option"
  get_nullifiers :: "error + byte list list option"
  withdraw_signAndSend :: "string \<Rightarrow> byte list \<Rightarrow> byte list \<Rightarrow> error + SendResult"
  generateWithdrawProof :: "WithdrawCircuitInput \<Rightarrow> error + Groth16Proof \<times> int list"

text \<open>
  \<^verbatim>\<open>WithdrawResult\<close>. The error field holds the message of the error that was caught,
  here the error itself, or the joined messages of the transaction.
\<close>

record WithdrawResult =
  success :: bool
  txHash :: "string option"
  error_message :: "error option"

text \<open>A transaction built by \<^verbatim>\<open>client.withdraw({to, proof_bytes, pub_signals_bytes})\<close>.\<close>

datatype transaction = Withdraw string "byte list" "byte list"

text \<open>\<^verbatim>\<open>fetchCommitmentsFromContract()\<close> and \<^verbatim>\<open>fetchAssociationRoot()\<close>.\<close>

definition fetchCommitmentsFromContract :: "Contract \<Rightarrow> error + byte list list" where
  "fetchCommitmentsFromContract env =
     and_then (get_commitments env) (\<lambda>result.
       case result of None \<Rightarrow> Inl (Error ''Failed to fetch commitments'')
                    | Some r \<Rightarrow> Inr r)"

definition fetchAssociationRoot :: "Contract \<Rightarrow> error + byte list" where
  "fetchAssociationRoot env =
     and_then (get_association_root env) (\<lambda>result.
       case result of None \<Rightarrow> Inl (Error ''Failed to fetch association root'')
                    | Some r \<Rightarrow> Inr r)"

text \<open>
  \<^verbatim>\<open>getMockAssociationProof(label)\<close>; slots 0 and 1 of the zero table exist, the table
  has \<open>TREE_DEPTH + 1\<close> entries.
\<close>

definition getMockAssociationProof :: "(int list \<Rightarrow> int) \<Rightarrow> int \<Rightarrow> int \<times> int \<times> int list" where
  "getMockAssociationProof poseidon l =
     (let zeros = initializeZeroValues poseidon;
          level0Hash = poseidonHash poseidon [l, zeros ! 0];
          associationRoot = poseidonHash poseidon [level0Hash, zeros ! 1]
      in (associationRoot, 0, [zeros ! 0, zeros ! 1]))"

text \<open>\<^verbatim>\<open>LeanMerkleTree.fromBufferLeaves(buffers, depth)\<close>.\<close>

fun map_bufferToBigint :: "byte list list \<Rightarrow> error + int list" where
  "map_bufferToBigint [] = Inr []"
| "map_bufferToBigint (buf # bufs) =
     and_then (bufferToBigint buf) (\<lambda>v.
     and_then (map_bufferToBigint bufs) (\<lambda>vs. Inr (v # vs)))"

definition fromBufferLeaves :: "byte list list \<Rightarrow> nat \<Rightarrow> error + LeanMerkleTree" where
  "fromBufferLeaves buffers d =
     and_then (map_bufferToBigint buffers) (\<lambda>ls. Inr \<lparr>leaves = ls, depth = d\<rparr>)"

text \<open>\<^verbatim>\<open>getMerkleProof(tree, leafIndex)\<close>: siblings, root and index.\<close>

definition getMerkleProof ::
  "(int list \<Rightarrow> int) \<Rightarrow> LeanMerkleTree \<Rightarrow> int \<Rightarrow> error + jsval list \<times> jsval \<times> int" where
  "getMerkleProof poseidon tree idx =
     and_then (getMerklePath poseidon tree idx) (\<lambda>siblings.
     and_then (computeRoot poseidon tree) (\<lambda>root. Inr (siblings, root, idx)))"

text \<open>
  The search of handleWithdraw for the note's commitment: the first index whose buffer
  equals it, or \<open>-1\<close>.
\<close>

fun foundIndex_loop :: "byte list list \<Rightarrow> byte list \<Rightarrow> int \<Rightarrow> int" where
  "foundIndex_loop [] commitmentBuffer i = - 1"
| "foundIndex_loop (c # cs) commitmentBuffer i =
     (if c = commitmentBuffer then i else foundIndex_loop cs commitmentBuffer (i + 1))"

text \<open>
  \<^verbatim>\<open>source.copy(target, targetStart, sourceStart, sourceEnd)\<close> of a Buffer: the bytes
  of the source range that fit are written over the target.
\<close>

definition Buffer_copy :: "byte list \<Rightarrow> byte list \<Rightarrow> nat \<Rightarrow> nat \<Rightarrow> nat \<Rightarrow> byte list" where
  "Buffer_copy source target targetStart sourceStart sourceEnd =
     (let chunk = take (length target - targetStart)
                    (take (sourceEnd - sourceStart) (drop sourceStart source))
      in take targetStart target @ chunk @ drop (targetStart + length chunk) target)"

text \<open>
  Steps 1 to 6 of \<^verbatim>\<open>handleWithdraw\<close>, which the two copies of privacyPool.ts share:
  the note, the commitments, the tree, the index of the commitment, the Merkle proof and
  the association root.
\<close>

definition handleWithdraw_fetch ::
  "(int list \<Rightarrow> int) \<Rightarrow> Contract \<Rightarrow> string
   \<Rightarrow> error + DepositNote \<times> int \<times> (jsval list \<times> jsval \<times> int) \<times> int" where
  "handleWithdraw_fetch poseidon env noteString =
     and_then (decodeNote noteString) (\<lambda>dn.
     and_then (fetchCommitmentsFromContract env) (\<lambda>commitments.
       if length commitments = 0 then Inl (Error ''No deposits found in contract'')
       else
     and_then (fromBufferLeaves commitments TREE_DEPTH) (\<lambda>tree.
       (let commitment = computeCommitment poseidon (note_value dn) (label dn)
                           (nullifier dn) (secret dn);
            commitmentBuffer = bigintToBuffer commitment;
            foundIndex = foundIndex_loop commitments commitmentBuffer 0
        in if foundIndex = - 1
           then Inl (Error
             ''Commitment not found in tree. Invalid note or deposit not confirmed.'')
           else
     and_then (getMerkleProof poseidon tree foundIndex) (\<lambda>merkleProof.
     and_then (fetchAssociationRoot env) (\<lambda>associationRootBuffer.
     and_then (bufferToBigint associationRootBuffer) (\<lambda>associationRoot.
       Inr (dn, foundIndex, merkleProof, associationRoot))))))))"

definition FIXED_AMOUNT_STROOPS :: int where
  "FIXED_AMOUNT_STROOPS = 1000000000"

text \<open>The circuit input of step 8, the same call in both copies.\<close>

definition handleWithdraw_circuitInput ::
  "DepositNote \<Rightarrow> int \<Rightarrow> (jsval list \<times> jsval \<times> int) \<Rightarrow> int \<Rightarrow> int \<Rightarrow> int list
   \<Rightarrow> error + WithdrawCircuitInput" where
  "handleWithdraw_circuitInput dn foundIndex merkleProof associationRoot labelIndex
     labelSiblings =
     (case merkleProof of (siblings, root, idx) \<Rightarrow>
        createWithdrawCircuitInput
          \<lparr>params_withdrawnValue = FIXED_AMOUNT_STROOPS,
           params_stateRoot = root,
           params_associationRoot = associationRoot,
           params_label = label dn,
           params_value = note_value dn,
           params_nullifier = nullifier dn,
           params_secret = secret dn,
           params_stateSiblings = siblings,
           params_stateIndex = foundIndex,
           params_labelIndex = labelIndex,
           params_labelSiblings = labelSiblings\<rparr>)"

text \<open>
  Steps 7 to 9 of the first copy of \<^verbatim>\<open>handleWithdraw\<close> (privacyPool.ts, lines 300 to
  370): a zero association root raises; otherwise the mock association proof, the circuit
  input, and the demo proof bytes and public signals that are handed to
  \<^verbatim>\<open>client.withdraw\<close>.
\<close>

definition handleWithdraw_prepare ::
  "(int list \<Rightarrow> int) \<Rightarrow> Contract \<Rightarrow> string \<Rightarrow> error + byte list \<times> byte list" where
  "handleWithdraw_prepare poseidon env noteString =
     and_then (handleWithdraw_fetch poseidon env noteString)
       (\<lambda>(dn, foundIndex, merkleProof, associationRoot).
          if associationRoot = 0
          then Inl (Error
            ''Association root not set. Admin must call set_association_root first.'')
          else
            (case getMockAssociationProof poseidon (label dn) of
               (mockRoot, labelIndex, labelSiblings) \<Rightarrow>
                 (let effectiveAssociationRoot = associationRoot
                  in and_then (handleWithdraw_circuitInput dn foundIndex merkleProof
                                 effectiveAssociationRoot labelIndex labelSiblings)
                       (\<lambda>circuitInput.
                          (let nullifierHash = computeNullifierHash poseidon (nullifier dn);
                               proofBytes = [];
                               pubSignalsBytes = uint32_be 1 @ replicate 32 0;
                               nullifierBuffer = bigintToBuffer nullifierHash
                           in Inr (proofBytes,
                                   Buffer_copy nullifierBuffer pubSignalsBytes 4 0 32))))))"

text \<open>
  Steps 7 to 10 of the second copy of \<^verbatim>\<open>handleWithdraw\<close> (privacyPool.ts, lines 762 to
  805): both branches of the test for a zero association root take the mock association
  proof; then the circuit input, the proof of the prover and its serialization.
\<close>

definition handleWithdraw_2_prepare ::
  "(int list \<Rightarrow> int) \<Rightarrow> Contract \<Rightarrow> string \<Rightarrow> error + byte list \<times> byte list" where
  "handleWithdraw_2_prepare poseidon env noteString =
     and_then (handleWithdraw_fetch poseidon env noteString)
       (\<lambda>(dn, foundIndex, merkleProof, associationRoot).
          (case (if associationRoot = 0 then getMockAssociationProof poseidon (label dn)
                 else getMockAssociationProof poseidon (label dn)) of
             (mockRoot, labelIndex, labelSiblings) \<Rightarrow>
               and_then (handleWithdraw_circuitInput dn foundIndex merkleProof
                           associationRoot labelIndex labelSiblings)
                 (\<lambda>circuitInput.
               and_then (generateWithdrawProof env circuitInput)
                 (\<lambda>(proof, publicSignals).
               and_then (serializeProofForSoroban proof) (\<lambda>proofBytes.
               and_then (serializePublicSignalsForSoroban publicSignals)
                 (\<lambda>pubSignalsBytes. Inr (proofBytes, pubSignalsBytes)))))))"

text \<open>
  Steps 11 and 12 and the \<^verbatim>\<open>catch\<close>, the same in both copies: the transaction is
  built, signed and sent, and its messages decide the result. The second component lists
  the withdraw transactions that were built.
\<close>

definition handleWithdraw_submit ::
  "Contract \<Rightarrow> string \<Rightarrow> error + byte list \<times> byte list
   \<Rightarrow> WithdrawResult \<times> transaction list" where
  "handleWithdraw_submit env toAddress prepared =
     (case prepared of
        Inl e \<Rightarrow> (\<lparr>success = False, txHash = None, error_message = Some e\<rparr>, [])
      | Inr (proofBytes, pubSignalsBytes) \<Rightarrow>
          (case withdraw_signAndSend env toAddress proofBytes pubSignalsBytes of
             Inl e \<Rightarrow> (\<lparr>success = False, txHash = None, error_message = Some e\<rparr>,
                       [Withdraw toAddress proofBytes pubSignalsBytes])
           | Inr r \<Rightarrow>
               (let messages = (case send_result r of None \<Rightarrow> [] | Some ms \<Rightarrow> ms)
                in if length messages > 0
                   then (\<lparr>success = False, txHash = None,
                          error_message = Some (Error (join '', '' messages))\<rparr>,
                         [Withdraw toAddress proofBytes pubSignalsBytes])
                   else (\<lparr>success = True, txHash = send_txHash r, error_message = None\<rparr>,
                         [Withdraw toAddress proofBytes pubSignalsBytes]))))"

text \<open>\<^verbatim>\<open>handleWithdraw(noteString, toAddress, signTransaction)\<close>, first and second copy.\<close>

definition handleWithdraw ::
  "(int list \<Rightarrow> int) \<Rightarrow> Contract \<Rightarrow> string \<Rightarrow> string \<Rightarrow> WithdrawResult \<times> transaction list"
where
  "handleWithdraw poseidon env noteString toAddress =
     handleWithdraw_submit env toAddress (handleWithdraw_prepare poseidon env noteString)"

definition handleWithdraw_2 ::
  "(int list \<Rightarrow> int) \<Rightarrow> Contract \<Rightarrow> string \<Rightarrow> string \<Rightarrow> WithdrawResult \<times> transaction list"
where
  "handleWithdraw_2 poseidon env noteString toAddress =
     handleWithdraw_submit env toAddress (handleWithdraw_2_prepare poseidon env noteString)"

text \<open>
  \<^verbatim>\<open>isNoteSpent(noteString)\<close>: the body of the \<^verbatim>\<open>try\<close>, with the loop over the used
  nullifiers, and the function with its \<^verbatim>\<open>catch\<close>.
\<close>

fun isNoteSpent_loop :: "byte list list \<Rightarrow> byte list \<Rightarrow> bool" where
  "isNoteSpent_loop [] nullifierBuffer = False"
| "isNoteSpent_loop (usedNullifier # rest) nullifierBuffer =
     (if usedNullifier = nullifierBuffer then True
      else isNoteSpent_loop rest nullifierBuffer)"

definition isNoteSpent_try :: "(int list \<Rightarrow> int) \<Rightarrow> Contract \<Rightarrow> string \<Rightarrow> error + bool" where
  "isNoteSpent_try poseidon env noteString =
     and_then (decodeNote noteString) (\<lambda>dn.
       (let nullifierHash = poseidonHash poseidon [nullifier dn];
            nullifierBuffer = bigintToBuffer nullifierHash
        in and_then (get_nullifiers env) (\<lambda>result.
             case result of None \<Rightarrow> Inr False
                          | Some used \<Rightarrow> Inr (isNoteSpent_loop used nullifierBuffer))))"

definition isNoteSpent :: "(int list \<Rightarrow> int) \<Rightarrow> Contract \<Rightarrow> string \<Rightarrow> bool" where
  "isNoteSpent poseidon env noteString =
     (case isNoteSpent_try poseidon env noteString of Inl e \<Rightarrow> False | Inr b \<Rightarrow> b)"

section \<open>Hash domain: properties\<close>

lemma poseidonHash_short:
  "length inputs \<le> 2 \<Longrightarrow> poseidonHash poseidon inputs = poseidon inputs"
  by (simp add: poseidonHash.simps)

lemma poseidonHash_pair [simp]: "poseidonHash poseidon [a, b] = poseidon [a, b]"
  by (simp add: poseidonHash.simps)

lemma poseidonHash_single [simp]: "poseidonHash poseidon [a] = poseidon [a]"
  by (simp add: poseidonHash.simps)


lemma getPoseidon_reachable:
  "st = None \<or> st = Some b \<Longrightarrow> getPoseidon b st = (b, Some b)"
  by (auto simp: getPoseidon_def)

lemma poseidonHash_cached_short:
  "st = None \<or> st = Some b \<Longrightarrow> length inputs \<le> 2 \<Longrightarrow>
   poseidonHash_cached b st inputs = (b inputs, Some b)"
  by (subst poseidonHash_cached.simps) (simp add: getPoseidon_reachable)

lemma poseidonHash_cached_loop_eq:
  "i \<le> length inputs \<Longrightarrow>
   poseidonHash_cached_loop b (Some b) inputs i result
   = (poseidonHash_loop b inputs i result, Some b)"
proof (induction "length inputs - i" arbitrary: i result)
  case 0
  then show ?case
    by (subst poseidonHash_cached_loop.simps, subst poseidonHash_loop.simps) simp
next
  case (Suc k)
  then have lt: "i < length inputs" by simp
  have IH: "poseidonHash_cached_loop b (Some b) inputs (Suc i) (b [result, inputs ! i])
            = (poseidonHash_loop b inputs (Suc i) (b [result, inputs ! i]), Some b)"
    using Suc.hyps(1) [of "Suc i"] Suc.hyps(2) lt by simp
  show ?case
    using lt
    by (subst poseidonHash_cached_loop.simps, subst poseidonHash_loop.simps)
       (simp add: poseidonHash_cached_short IH)
qed

lemma poseidonHash_cached_eq:
  assumes "st = None \<or> st = Some b"
  shows "poseidonHash_cached b st inputs = (poseidonHash b inputs, Some b)"
proof (cases "length inputs > 2")
  case True
  then show ?thesis
    using assms
    by (subst poseidonHash_cached.simps, subst poseidonHash.simps)
       (simp add: getPoseidon_reachable poseidonHash_cached_short poseidonHash_cached_loop_eq)
next
  case False
  then show ?thesis using assms by (simp add: poseidonHash_cached_short poseidonHash_short)
qed

lemma computeCommitment_cached_eq:
  assumes "st = None \<or> st = Some b"
  shows "computeCommitment_cached b st v l n s = (computeCommitment b v l n s, Some b)"
  using assms
  by (simp add: computeCommitment_cached_def computeCommitment_def poseidonHash_cached_short)

lemma computeCommitment_formula:
  "computeCommitment poseidon v l n s = poseidon [poseidon [v, l], poseidon [n, s]]"
  by (simp add: computeCommitment_def)






section \<open>Accumulator: insertion\<close>

lemma addLeaf_room:
  "length (leaves t) < 2 ^ depth t \<Longrightarrow>
   addLeaf t leaf = (Inr (length (leaves t)), t\<lparr>leaves := leaves t @ [leaf]\<rparr>)"
  by (simp add: addLeaf_def Let_def)

lemma addLeaf_full:
  "length (leaves t) \<ge> 2 ^ depth t \<Longrightarrow>
   addLeaf t leaf = (Inl (Error ''Tree at capacity''), t)"
  by (simp add: addLeaf_def Let_def)

text \<open>
  C5. \<open>addLeaf\<close> returns the number of leaves before the call as the index of the new leaf
  when the tree holds fewer than \<open>2 ^ depth\<close> leaves, and appends the leaf; it raises
  \<^verbatim>\<open>Tree at capacity\<close> exactly when that index would be at least \<open>2 ^ depth\<close>, and then
  the tree is as it was.
\<close>

theorem addLeaf_index_or_full:
  "(length (leaves t) < 2 ^ depth t \<longrightarrow>
      addLeaf t leaf = (Inr (length (leaves t)), t\<lparr>leaves := leaves t @ [leaf]\<rparr>)) \<and>
   (fst (addLeaf t leaf) = Inl (Error ''Tree at capacity'') \<longleftrightarrow>
      length (leaves t) \<ge> 2 ^ depth t) \<and>
   (isl (fst (addLeaf t leaf)) \<longrightarrow>
      addLeaf t leaf = (Inl (Error ''Tree at capacity''), t))"
proof (cases "length (leaves t) < 2 ^ depth t")
  case True
  then show ?thesis by (simp add: addLeaf_room)
next
  case False
  then have "length (leaves t) \<ge> 2 ^ depth t" by simp
  then show ?thesis by (simp add: addLeaf_full)
qed

theorem addLeaf_index_or_full_witness:
  "addLeaf \<lparr>leaves = [5], depth = 1\<rparr> 7 = (Inr 1, \<lparr>leaves = [5, 7], depth = 1\<rparr>) \<and>
   addLeaf \<lparr>leaves = [5, 7], depth = 1\<rparr> 9
     = (Inl (Error ''Tree at capacity''), \<lparr>leaves = [5, 7], depth = 1\<rparr>)"
  using addLeaf_index_or_full [of "\<lparr>leaves = [5], depth = 1\<rparr>" 7]
        addLeaf_index_or_full [of "\<lparr>leaves = [5, 7], depth = 1\<rparr>" 9]
  by simp
section \<open>Accumulator: roots and paths\<close>

lemma spec_full_tree_root_padded: "spec_full_tree_root H d xs = padded_root H d 0 xs"
  by (induction d arbitrary: xs) simp_all

lemma padded_root_Nil: "padded_root H k L [] = spec_zero H (L + k)"
  by (induction k) simp_all

lemma next_layer_length: "length (next_layer H z xs) = (length xs + 1) div 2"
  by (induction H z xs rule: next_layer.induct) simp_all

lemma next_layer_take: "next_layer H z (take (2 * n) xs) = take n (next_layer H z xs)"
proof (induction H z xs arbitrary: n rule: next_layer.induct)
  case (1 H z)
  show ?case by simp
next
  case (2 H z l)
  show ?case by (cases n) simp_all
next
  case (3 H z l r rest)
  show ?case
  proof (cases n)
    case 0
    then show ?thesis by simp
  next
    case (Suc m)
    then show ?thesis using 3 [of m] by simp
  qed
qed

lemma next_layer_drop: "next_layer H z (drop (2 * n) xs) = drop n (next_layer H z xs)"
proof (induction H z xs arbitrary: n rule: next_layer.induct)
  case (1 H z)
  show ?case by simp
next
  case (2 H z l)
  show ?case by (cases n) simp_all
next
  case (3 H z l r rest)
  show ?case
  proof (cases n)
    case 0
    then show ?thesis by simp
  next
    case (Suc m)
    then show ?thesis using 3 [of m] by simp
  qed
qed

lemma padded_root_step:
  "padded_root H (Suc k) L xs = padded_root H k (Suc L) (next_layer H (spec_zero H L) xs)"
proof (induction k arbitrary: xs)
  case 0
  show ?case
  proof (cases xs)
    case Nil
    then show ?thesis by simp
  next
    case (Cons a as)
    then show ?thesis by (cases as) simp_all
  qed
next
  case (Suc k)
  have t: "next_layer H (spec_zero H L) (take (2 ^ Suc k) xs)
           = take (2 ^ k) (next_layer H (spec_zero H L) xs)"
    using next_layer_take [of H "spec_zero H L" "2 ^ k" xs] by simp
  have d: "next_layer H (spec_zero H L) (drop (2 ^ Suc k) xs)
           = drop (2 ^ k) (next_layer H (spec_zero H L) xs)"
    using next_layer_drop [of H "spec_zero H L" "2 ^ k" xs] by simp
  have "padded_root H (Suc (Suc k)) L xs
        = H (padded_root H (Suc k) L (take (2 ^ Suc k) xs))
            (padded_root H (Suc k) L (drop (2 ^ Suc k) xs))"
    by (rule padded_root.simps(2))
  also have "\<dots> = H (padded_root H k (Suc L) (take (2 ^ k) (next_layer H (spec_zero H L) xs)))
                     (padded_root H k (Suc L) (drop (2 ^ k) (next_layer H (spec_zero H L) xs)))"
    by (simp only: Suc.IH t d)
  also have "\<dots> = padded_root H (Suc k) (Suc L) (next_layer H (spec_zero H L) xs)"
    by simp
  finally show ?case .
qed

lemma buildNextLayer_pure:
  "buildNextLayer poseidon (Some z) (map Some xs)
   = Inr (map Some (next_layer (H2 poseidon) z xs))"
  by (induction "H2 poseidon" z xs rule: next_layer.induct)
     (simp_all add: poseidonHash_slots_def H2_def)

lemma zeroValues_length: "length (zeroValues poseidon n) = Suc n"
  by (induction n) (simp_all add: Let_def)

lemma zeroValues_nth:
  "i \<le> n \<Longrightarrow> zeroValues poseidon n ! i = spec_zero (H2 poseidon) i"
proof (induction n arbitrary: i)
  case 0
  then show ?case by simp
next
  case (Suc n)
  show ?case
  proof (cases "i \<le> n")
    case True
    then show ?thesis using Suc.IH [of i] by (simp add: Let_def nth_append zeroValues_length)
  next
    case False
    with Suc.prems have "i = Suc n" by simp
    then show ?thesis using Suc.IH [of n]
      by (simp add: Let_def nth_append zeroValues_length H2_def)
  qed
qed

lemma slot_zeros:
  "L \<le> TREE_DEPTH \<Longrightarrow>
   slot (initializeZeroValues poseidon) L = Some (spec_zero (H2 poseidon) L)"
  by (simp add: slot_def initializeZeroValues_def zeroValues_length zeroValues_nth)

lemma slot_zeros_undefined:
  "L > TREE_DEPTH \<Longrightarrow> slot (initializeZeroValues poseidon) L = None"
  by (simp add: slot_def initializeZeroValues_def zeroValues_length)


lemma next_layer_nonempty: "xs \<noteq> [] \<Longrightarrow> next_layer H z xs \<noteq> []"
  by (cases "(H, z, xs)" rule: next_layer.cases) simp_all

lemma half_bound: "(n::nat) \<le> 2 ^ Suc k \<Longrightarrow> (n + 1) div 2 \<le> 2 ^ k"
  by simp

lemma computeRoot_loop_pure:
  assumes zs: "\<And>L. L < d \<Longrightarrow> slot zeros L = Some (spec_zero (H2 poseidon) L)"
  shows "level \<le> d \<Longrightarrow> cur \<noteq> [] \<Longrightarrow> length cur \<le> 2 ^ (d - level) \<Longrightarrow>
         computeRoot_loop poseidon zeros d (map Some cur) level
         = Inr [Some (padded_root (H2 poseidon) (d - level) level cur)]"
proof (induction "d - level" arbitrary: level cur)
  case 0
  then have lv: "level = d" by simp
  with 0 have "length cur = 1" by (cases cur) simp_all
  then obtain x where cur: "cur = [x]" by (cases cur) simp_all
  show ?case using lv by (subst computeRoot_loop.simps) (simp add: cur)
next
  case (Suc k)
  let ?H = "H2 poseidon"
  let ?z = "spec_zero ?H level"
  let ?nl = "next_layer ?H ?z cur"
  from Suc.hyps(2) have lt: "level < d" and k: "d - Suc level = k" by simp_all
  have dl: "d - level = Suc k" using Suc.hyps(2) by simp
  have sl: "slot zeros level = Some ?z" using zs lt by simp
  have ne: "?nl \<noteq> []" using Suc.prems(2) by (rule next_layer_nonempty)
  have len: "length ?nl \<le> 2 ^ k"
    using Suc.prems(3) half_bound [of "length cur" k] by (simp add: next_layer_length dl)
  have IH: "computeRoot_loop poseidon zeros d (map Some ?nl) (Suc level)
            = Inr [Some (padded_root ?H k (Suc level) ?nl)]"
    using Suc.hyps(1) [of "Suc level" ?nl] k lt ne len by simp
  have step: "padded_root ?H (Suc k) level cur = padded_root ?H k (Suc level) ?nl"
    by (rule padded_root_step)
  show ?case
  proof (cases "Suc level \<ge> d \<and> length ?nl = 1")
    case True
    then have k0: "k = 0" using k by simp
    from True obtain y where y: "?nl = [y]" by (cases ?nl) simp_all
    have "computeRoot_loop poseidon zeros d (map Some cur) level = Inr (map Some ?nl)"
      using lt True ne
      by (subst computeRoot_loop.simps) (simp add: sl buildNextLayer_pure)
    then show ?thesis unfolding dl step unfolding k0 y by simp
  next
    case False
    have "computeRoot_loop poseidon zeros d (map Some cur) level
          = computeRoot_loop poseidon zeros d (map Some ?nl) (Suc level)"
      using lt False ne
      by (subst computeRoot_loop.simps) (auto simp add: sl buildNextLayer_pure)
    then show ?thesis unfolding dl step by (simp only: IH)
  qed
qed


lemma inserts_snoc: "inserts d (xs @ [x]) = snd (addLeaf (inserts d xs) x)"
  by (simp add: inserts_def)

lemma inserts_leaves:
  "length xs \<le> 2 ^ d \<Longrightarrow> inserts d xs = \<lparr>leaves = xs, depth = d\<rparr>"
proof (induction xs rule: rev_induct)
  case Nil
  show ?case by (simp add: inserts_def new_LeanMerkleTree_def)
next
  case (snoc x xs)
  then have "inserts d xs = \<lparr>leaves = xs, depth = d\<rparr>" and "length xs < 2 ^ d"
    by simp_all
  then show ?case by (simp add: inserts_snoc addLeaf_def Let_def)
qed

lemma next_layer_nth:
  "i < length cur \<Longrightarrow>
   next_layer H z cur ! (i div 2) =
     (if even i then H (cur ! i) (if i + 1 < length cur then cur ! (i + 1) else z)
      else H (cur ! (i - 1)) (cur ! i))"
proof (induction H z cur arbitrary: i rule: next_layer.induct)
  case (1 H z)
  then show ?case by simp
next
  case (2 H z l)
  then show ?case by simp
next
  case (3 H z l r rest)
  show ?case
  proof (cases "i < 2")
    case True
    then have "i = 0 \<or> i = 1" by auto
    then show ?thesis by auto
  next
    case False
    define j where "j = i - 2"
    with False have j: "i = Suc (Suc j)" by simp
    with "3.prems" have jl: "j < length rest" by simp
    have dv: "i div 2 = Suc (j div 2)" using j by simp
    show ?thesis using "3.IH" [OF jl] by (auto simp add: j nth_Cons')
  qed
qed

lemma fold_path:
  "idx < length cur \<Longrightarrow> length cur \<le> 2 ^ k \<Longrightarrow>
   pure_fold H (pure_path H k L cur idx) (cur ! idx) idx = padded_root H k L cur"
proof (induction k arbitrary: L cur idx)
  case 0
  then have "length cur = 1" and "idx = 0" by simp_all
  then obtain x where "cur = [x]" by (cases cur) simp_all
  then show ?case using \<open>idx = 0\<close> by simp
next
  case (Suc k)
  let ?z = "spec_zero H L"
  let ?nl = "next_layer H ?z cur"
  have il: "idx div 2 < length ?nl" using Suc.prems(1) by (simp add: next_layer_length)
  have ll: "length ?nl \<le> 2 ^ k"
    using Suc.prems(2) half_bound [of "length cur" k] by (simp add: next_layer_length)
  have IH: "pure_fold H (pure_path H k (Suc L) ?nl (idx div 2)) (?nl ! (idx div 2)) (idx div 2)
            = padded_root H k (Suc L) ?nl"
    using Suc.IH [OF il ll] .
  have nth: "?nl ! (idx div 2) =
     (if even idx then H (cur ! idx) (if idx + 1 < length cur then cur ! (idx + 1) else ?z)
      else H (cur ! (idx - 1)) (cur ! idx))"
    using Suc.prems(1) by (rule next_layer_nth)
  have odd_lt: "odd idx \<Longrightarrow> idx - 1 < length cur" using Suc.prems(1) by simp
  have "pure_fold H (pure_path H (Suc k) L cur idx) (cur ! idx) idx
        = pure_fold H (pure_path H k (Suc L) ?nl (idx div 2)) (?nl ! (idx div 2)) (idx div 2)"
    using odd_lt by (simp add: Let_def nth del: padded_root.simps)
  also have "\<dots> = padded_root H k (Suc L) ?nl" by (rule IH)
  also have "\<dots> = padded_root H (Suc k) L cur" by (rule padded_root_step [symmetric])
  finally show ?case .
qed

lemma pure_path_length: "length (pure_path H k L cur idx) = k"
  by (induction k arbitrary: L cur idx) (simp_all add: Let_def)

lemma getMerklePath_loop_pure:
  assumes zs: "\<And>L. L < d \<Longrightarrow> slot zeros L = Some (spec_zero (H2 poseidon) L)"
  shows "level \<le> d \<Longrightarrow> idx < length cur \<Longrightarrow>
         getMerklePath_loop poseidon zeros d (map Some cur) idx level acc
         = Inr (acc @ map Some (pure_path (H2 poseidon) (d - level) level cur idx))"
proof (induction "d - level" arbitrary: level cur idx acc)
  case 0
  then show ?case by (subst getMerklePath_loop.simps) simp
next
  case (Suc k)
  let ?H = "H2 poseidon"
  let ?z = "spec_zero ?H level"
  let ?nl = "next_layer ?H ?z cur"
  let ?sidx = "if idx mod 2 = 0 then idx + 1 else idx - 1"
  let ?s = "if ?sidx < length cur then Some (cur ! ?sidx) else Some ?z"
  from Suc.hyps(2) have lt: "level < d" and k: "d - Suc level = k" by simp_all
  have dl: "d - level = Suc k" using Suc.hyps(2) by simp
  have sl: "slot zeros level = Some ?z" using zs lt by simp
  have ne: "?nl \<noteq> []" using Suc.prems(2) by (intro next_layer_nonempty) auto
  have il: "idx div 2 < length ?nl" using Suc.prems(2) by (simp add: next_layer_length)
  have IH: "getMerklePath_loop poseidon zeros d (map Some ?nl) (idx div 2) (Suc level) (acc @ [?s])
            = Inr ((acc @ [?s]) @ map Some (pure_path ?H k (Suc level) ?nl (idx div 2)))"
    using Suc.hyps(1) [of "Suc level" "idx div 2" ?nl "acc @ [?s]"] k lt il by simp
  have "getMerklePath_loop poseidon zeros d (map Some cur) idx level acc
        = getMerklePath_loop poseidon zeros d (map Some ?nl) (idx div 2) (Suc level) (acc @ [?s])"
    using lt ne
    by (subst getMerklePath_loop.simps) (simp add: sl buildNextLayer_pure Let_def)
  then show ?case unfolding dl by (simp add: IH Let_def even_iff_mod_2_eq_zero)
qed

lemma verifyProof_loop_pure:
  "length sibs = d \<Longrightarrow> i \<le> d \<Longrightarrow>
   verifyProof_loop poseidon d (map Some sibs) i h (int idx)
   = Inr (pure_fold (H2 poseidon) (drop i sibs) h idx)"
proof (induction "d - i" arbitrary: i h idx)
  case 0
  then show ?case by (subst verifyProof_loop.simps) simp
next
  case (Suc k)
  from Suc.hyps(2) have lt: "i < d" and k: "d - Suc i = k" by simp_all
  have dr: "drop i sibs = sibs ! i # drop (Suc i) sibs"
    using lt Suc.prems(1) by (simp add: Cons_nth_drop_Suc)
  have par: "(int idx mod 2 = 0) = even idx" by presburger
  have hf: "int idx div 2 = int (idx div 2)" by simp
  let ?h = "if even idx then H2 poseidon h (sibs ! i) else H2 poseidon (sibs ! i) h"
  have IH: "verifyProof_loop poseidon d (map Some sibs) (Suc i) ?h (int (idx div 2))
            = Inr (pure_fold (H2 poseidon) (drop (Suc i) sibs) ?h (idx div 2))"
    using Suc.hyps(1) [of "Suc i" ?h "idx div 2"] k lt Suc.prems(1) by simp
  have "verifyProof_loop poseidon d (map Some sibs) i h (int idx)
        = verifyProof_loop poseidon d (map Some sibs) (Suc i) ?h (int (idx div 2))"
    using lt Suc.prems(1)
    by (subst verifyProof_loop.simps)
       (simp add: slot_of_def poseidonHash_slots_def H2_def par hf Let_def)
  then show ?case by (simp add: IH dr)
qed


lemma slot_zeros_below:
  "d \<le> Suc TREE_DEPTH \<Longrightarrow> L < d \<Longrightarrow>
   slot (initializeZeroValues poseidon) L = Some (spec_zero (H2 poseidon) L)"
  by (rule slot_zeros) simp

lemma computeRoot_nonempty:
  assumes "xs \<noteq> []" "length xs \<le> 2 ^ d" "d \<le> Suc TREE_DEPTH"
  shows "computeRoot poseidon \<lparr>leaves = xs, depth = d\<rparr>
         = Inr (Some (padded_root (H2 poseidon) d 0 xs))"
proof -
  have "computeRoot_loop poseidon (initializeZeroValues poseidon) d (map Some xs) 0
        = Inr [Some (padded_root (H2 poseidon) (d - 0) 0 xs)]"
    using assms by (intro computeRoot_loop_pure slot_zeros_below) simp_all
  then show ?thesis using assms(1) by (simp add: computeRoot_def slot_of_def)
qed

lemma computeRoot_empty:
  assumes "d \<le> TREE_DEPTH"
  shows "computeRoot poseidon \<lparr>leaves = [], depth = d\<rparr>
         = Inr (Some (padded_root (H2 poseidon) d 0 []))"
  using assms by (simp add: computeRoot_def slot_zeros padded_root_Nil)

lemma computeRoot_padded:
  assumes "length xs \<le> 2 ^ d" "d \<le> Suc TREE_DEPTH" "xs = [] \<longrightarrow> d \<le> TREE_DEPTH"
  shows "computeRoot poseidon \<lparr>leaves = xs, depth = d\<rparr>
         = Inr (Some (padded_root (H2 poseidon) d 0 xs))"
  using assms computeRoot_nonempty computeRoot_empty by (cases "xs = []") simp_all

lemma getMerklePath_pure:
  assumes "i < length xs" "d \<le> Suc TREE_DEPTH"
  shows "getMerklePath poseidon \<lparr>leaves = xs, depth = d\<rparr> (int i)
         = Inr (map Some (pure_path (H2 poseidon) d 0 xs i))"
proof -
  have "getMerklePath_loop poseidon (initializeZeroValues poseidon) d (map Some xs) i 0 []
        = Inr ([] @ map Some (pure_path (H2 poseidon) (d - 0) 0 xs i))"
    using assms by (intro getMerklePath_loop_pure slot_zeros_below) simp_all
  then show ?thesis using assms(1) by (simp add: getMerklePath_def)
qed

lemma verifyProof_pure:
  "length sibs = d \<Longrightarrow>
   verifyProof poseidon \<lparr>leaves = xs, depth = d\<rparr> leaf (int i) (map Some sibs) root
   = Inr (Some (pure_fold (H2 poseidon) sibs leaf i) = root)"
  using verifyProof_loop_pure [of sibs d 0 poseidon leaf i]
  by (simp add: verifyProof_def)

text \<open>
  The guarded read: getZeroValue returns the zero value of a level up to \<open>TREE_DEPTH\<close> and
  raises on every other level, so it never returns \<^verbatim>\<open>undefined\<close>.
\<close>

lemma getZeroValue_guarded:
  "(0 \<le> level \<and> level \<le> int TREE_DEPTH \<longrightarrow>
      getZeroValue poseidon level = Inr (spec_zero (H2 poseidon) (nat level))) \<and>
   (level < 0 \<or> level > int TREE_DEPTH \<longrightarrow>
      getZeroValue poseidon level = Inl (ErrorNum ''Invalid level: '' (Number level)))"
  by (auto simp: getZeroValue_def initializeZeroValues_def zeroValues_nth)

text \<open>
  Where every zero value that is read lies in the table, that is up to depth
  \<open>TREE_DEPTH + 1\<close> with at least one leaf, the path of every leaf verifies against the
  root.
\<close>

lemma verifyProof_of_getMerklePath:
  assumes "d \<le> Suc TREE_DEPTH" and "length xs \<le> 2 ^ d" and "i < length xs"
  shows "\<exists>path root.
           getMerklePath poseidon (inserts d xs) (int i) = Inr path \<and>
           computeRoot poseidon (inserts d xs) = Inr root \<and>
           verifyProof poseidon (inserts d xs) (xs ! i) (int i) path root = Inr True"
proof -
  let ?t = "\<lparr>leaves = xs, depth = d\<rparr>"
  let ?H = "H2 poseidon"
  have t: "inserts d xs = ?t" using assms(2) by (rule inserts_leaves)
  have ne: "xs \<noteq> []" using assms(3) by auto
  have p: "getMerklePath poseidon ?t (int i) = Inr (map Some (pure_path ?H d 0 xs i))"
    using assms(3,1) by (rule getMerklePath_pure)
  have r: "computeRoot poseidon ?t = Inr (Some (padded_root ?H d 0 xs))"
    using ne assms(2,1) by (rule computeRoot_nonempty)
  have f: "pure_fold ?H (pure_path ?H d 0 xs i) (xs ! i) i = padded_root ?H d 0 xs"
    using assms(3,2) by (rule fold_path)
  have v: "verifyProof poseidon ?t (xs ! i) (int i) (map Some (pure_path ?H d 0 xs i))
             (Some (padded_root ?H d 0 xs)) = Inr True"
    by (simp add: verifyProof_pure pure_path_length f)
  show ?thesis unfolding t using p r v by blast
qed

lemma verifyProof_of_getMerklePath_example:
  "3 \<le> Suc TREE_DEPTH \<and> length [5, 7, 9 :: int] \<le> 2 ^ 3 \<and> (2::nat) < length [5, 7, 9 :: int] \<and>
   (\<exists>path root.
      getMerklePath (\<lambda>xs. sum_list xs + 1) (inserts 3 [5, 7, 9]) 2 = Inr path \<and>
      computeRoot (\<lambda>xs. sum_list xs + 1) (inserts 3 [5, 7, 9]) = Inr root \<and>
      verifyProof (\<lambda>xs. sum_list xs + 1) (inserts 3 [5, 7, 9]) 9 2 path root = Inr True)"
  using verifyProof_of_getMerklePath [of 3 "[5, 7, 9]" 2 "\<lambda>xs. sum_list xs + 1"]
  by (simp add: TREE_DEPTH_def)

text \<open>
  C1. The claim holds for every depth; the code breaks it at depth 10. With one leaf,
  level 9 pads with \<^verbatim>\<open>zeros[9]\<close>, which is past the end of the table built for
  \<open>TREE_DEPTH\<close>: the read is not guarded as the one of getZeroValue is, the value is
  \<^verbatim>\<open>undefined\<close>, and its hash raises in getMerklePath and in computeRoot, so there is
  no path and no root to verify.
\<close>

theorem getMerklePath_depth_10_raises:
  "length (leaves (inserts 10 [5])) \<le> 2 ^ 10 \<and>
   getMerklePath (\<lambda>xs. sum_list xs + 1) (inserts 10 [5]) 0 = Inl TypeError \<and>
   computeRoot (\<lambda>xs. sum_list xs + 1) (inserts 10 [5]) = Inl TypeError \<and>
   getZeroValue (\<lambda>xs. sum_list xs + 1) 9 = Inl (ErrorNum ''Invalid level: '' (Number 9))"
  by code_simp

text \<open>
  Where every zero value that is read lies in the table, the root is the root of the full
  tree over the leaves padded with zero leaves; for the empty tree it is \<open>zero[d]\<close>, and
  the two roots of the scenario at depth 3 are as the spec gives them.
\<close>

lemma computeRoot_reference:
  "(length xs \<le> 2 ^ d \<and> d \<le> Suc TREE_DEPTH \<and> (xs = [] \<longrightarrow> d \<le> TREE_DEPTH) \<longrightarrow>
      computeRoot poseidon (inserts d xs)
        = Inr (Some (spec_full_tree_root (H2 poseidon) d xs))) \<and>
   (d \<le> TREE_DEPTH \<longrightarrow>
      computeRoot poseidon (inserts d []) = Inr (Some (spec_zero (H2 poseidon) d))) \<and>
   computeRoot poseidon (inserts 3 [5])
     = Inr (Some (H2 poseidon (H2 poseidon (H2 poseidon 5 (spec_zero (H2 poseidon) 0))
                                 (spec_zero (H2 poseidon) 1))
                    (spec_zero (H2 poseidon) 2))) \<and>
   computeRoot poseidon (inserts 3 [5, 7])
     = Inr (Some (H2 poseidon (H2 poseidon (H2 poseidon 5 7) (spec_zero (H2 poseidon) 1))
                    (spec_zero (H2 poseidon) 2)))"
proof -
  have general: "computeRoot poseidon (inserts d' ys)
                 = Inr (Some (spec_full_tree_root (H2 poseidon) d' ys))"
    if "length ys \<le> 2 ^ d'" "d' \<le> Suc TREE_DEPTH" "ys = [] \<longrightarrow> d' \<le> TREE_DEPTH"
    for d' ys
    using that by (simp add: inserts_leaves computeRoot_padded spec_full_tree_root_padded)
  have empty: "computeRoot poseidon (inserts d []) = Inr (Some (spec_zero (H2 poseidon) d))"
    if "d \<le> TREE_DEPTH"
    using general [of "[]" d] that by (simp add: spec_full_tree_root_padded padded_root_Nil)
  have one: "computeRoot poseidon (inserts 3 [5])
     = Inr (Some (H2 poseidon (H2 poseidon (H2 poseidon 5 (spec_zero (H2 poseidon) 0))
                                 (spec_zero (H2 poseidon) 1))
                    (spec_zero (H2 poseidon) 2)))"
    using general [of "[5]" 3] by (simp add: TREE_DEPTH_def eval_nat_numeral)
  have two: "computeRoot poseidon (inserts 3 [5, 7])
     = Inr (Some (H2 poseidon (H2 poseidon (H2 poseidon 5 7) (spec_zero (H2 poseidon) 1))
                    (spec_zero (H2 poseidon) 2)))"
    using general [of "[5, 7]" 3] by (simp add: TREE_DEPTH_def eval_nat_numeral)
  show ?thesis using general [of xs d] empty one two by blast
qed

lemma computeRoot_reference_example:
  "length [5, 7, 9 :: int] \<le> 2 ^ 2 \<and> 2 \<le> Suc TREE_DEPTH \<and>
   [5, 7, 9 :: int] \<noteq> [] \<and> 2 \<le> TREE_DEPTH \<and>
   computeRoot (\<lambda>xs. sum_list xs + 1) (inserts 2 [5, 7, 9])
     = Inr (Some (spec_full_tree_root (H2 (\<lambda>xs. sum_list xs + 1)) 2 [5, 7, 9])) \<and>
   computeRoot (\<lambda>xs. sum_list xs + 1) (inserts 2 []) = Inr (Some 3)"
  using computeRoot_reference [of "[5, 7, 9]" 2 "\<lambda>xs. sum_list xs + 1"]
  by (simp add: TREE_DEPTH_def H2_def eval_nat_numeral)

text \<open>
  C2. The claim holds for every depth; the code breaks it at depth 9. For the empty tree
  computeRoot returns \<^verbatim>\<open>zeros[9]\<close>, a read past the end of the table that getZeroValue
  refuses: the result is \<^verbatim>\<open>undefined\<close> and not \<open>zero[9]\<close>.
\<close>

theorem computeRoot_depth_9_undefined:
  "computeRoot (\<lambda>xs. sum_list xs + 1) (inserts 9 []) = Inr None \<and>
   computeRoot (\<lambda>xs. sum_list xs + 1) (inserts 9 [])
     \<noteq> Inr (Some (spec_zero (H2 (\<lambda>xs. sum_list xs + 1)) 9)) \<and>
   spec_zero (H2 (\<lambda>xs. sum_list xs + 1)) 9 = 511 \<and>
   getZeroValue (\<lambda>xs. sum_list xs + 1) 9 = Inl (ErrorNum ''Invalid level: '' (Number 9))"
  by code_simp

section \<open>Notes: properties\<close>

lemma digit_cases:
  "0 \<le> d \<Longrightarrow> d < 16 \<Longrightarrow>
   d \<in> {0, 1, 2, 3, 4, 5, 6, 7, 8, 9, 10, 11, 12, 13, 14, 15 :: int}"
  by (simp; presburger)

lemma char_digit_digit_char:
  "0 \<le> d \<Longrightarrow> d < 16 \<Longrightarrow> char_digit (digit_char d) = Some d"
  using digit_cases [of d] by (auto simp: char_digit_def digit_char_def)

lemma digit_char_not_minus:
  "0 \<le> d \<Longrightarrow> d < 16 \<Longrightarrow> digit_char d \<noteq> CHR ''-''"
  using digit_cases [of d] by (auto simp: digit_char_def)

lemma digit_char_not_space:
  "0 \<le> d \<Longrightarrow> d < 16 \<Longrightarrow> \<not> is_space (digit_char d)"
  using digit_cases [of d] by (auto simp: digit_char_def is_space_def)

lemma digit_char_not_plus:
  "0 \<le> d \<Longrightarrow> d < 16 \<Longrightarrow> digit_char d \<noteq> CHR ''+''"
  using digit_cases [of d] by (auto simp: digit_char_def)

lemma digit_char_not_x:
  "0 \<le> d \<Longrightarrow> d < 16 \<Longrightarrow> digit_char d \<noteq> CHR ''x'' \<and> digit_char d \<noteq> CHR ''X''"
  using digit_cases [of d] by (auto simp: digit_char_def)

lemma is_digit_digit_char:
  "0 \<le> d \<Longrightarrow> d < r \<Longrightarrow> r \<le> 16 \<Longrightarrow> is_digit r (digit_char d)"
  by (simp add: is_digit_def char_digit_digit_char)


lemma digits_of_nonempty: "digits_of r n \<noteq> []"
  by (subst digits_of.simps) simp

lemma digits_of_chars:
  "2 \<le> r \<Longrightarrow> 0 \<le> n \<Longrightarrow> c \<in> set (digits_of r n) \<Longrightarrow> \<exists>d. 0 \<le> d \<and> d < r \<and> c = digit_char d"
proof (induction r n rule: digits_of.induct)
  case (1 radix n)
  show ?case
  proof (cases "n < radix")
    case True
    then have "digits_of radix n = [digit_char n]" by (subst digits_of.simps) simp
    with "1.prems" True show ?thesis by auto
  next
    case False
    with "1.prems" have eq: "digits_of radix n
          = digits_of radix (n div radix) @ [digit_char (n mod radix)]"
      by (subst digits_of.simps) simp
    have nn: "0 \<le> n div radix" using "1.prems" by (simp add: pos_imp_zdiv_nonneg_iff)
    from "1.prems"(3) eq consider "c \<in> set (digits_of radix (n div radix))"
      | "c = digit_char (n mod radix)" by auto
    then show ?thesis
    proof cases
      case 1
      then show ?thesis using "1.IH" "1.prems"(1) False nn by simp
    next
      case 2
      moreover have "0 \<le> n mod radix" "n mod radix < radix" using "1.prems"(1) by simp_all
      ultimately show ?thesis by blast
    qed
  qed
qed

lemma digits_value_snoc:
  "digits_value r (cs @ [c])
   = digits_value r cs * r + (case char_digit c of None \<Rightarrow> 0 | Some v \<Rightarrow> v)"
  by (simp add: digits_value_def)

lemma digits_value_digits_of:
  "2 \<le> r \<Longrightarrow> r \<le> 16 \<Longrightarrow> 0 \<le> n \<Longrightarrow> digits_value r (digits_of r n) = n"
proof (induction r n rule: digits_of.induct)
  case (1 radix n)
  show ?case
  proof (cases "n < radix")
    case True
    then have "digits_of radix n = [digit_char n]" by (subst digits_of.simps) simp
    with "1.prems" True show ?thesis
      by (simp add: digits_value_def char_digit_digit_char)
  next
    case False
    with "1.prems" have eq: "digits_of radix n
          = digits_of radix (n div radix) @ [digit_char (n mod radix)]"
      by (subst digits_of.simps) simp
    have nn: "0 \<le> n div radix" using "1.prems" by (simp add: pos_imp_zdiv_nonneg_iff)
    have IH: "digits_value radix (digits_of radix (n div radix)) = n div radix"
      using "1.IH" "1.prems" False nn by simp
    have lt: "n mod radix < radix" using "1.prems" by simp
    have m0: "0 \<le> n mod radix" using "1.prems" by simp
    have m1: "n mod radix < 16" using lt "1.prems"(2) by linarith
    note m = m0 m1
    show ?thesis
      by (simp add: eq digits_value_snoc IH char_digit_digit_char m)
  qed
qed

lemma digits_of_is_digit:
  assumes "2 \<le> r" "r \<le> 16" "0 \<le> n"
  shows "list_all (is_digit r) (digits_of r n)"
  unfolding list_all_iff
proof
  fix c assume "c \<in> set (digits_of r n)"
  then obtain d where "0 \<le> d" "d < r" "c = digit_char d"
    using digits_of_chars assms by blast
  then show "is_digit r c" using assms(2) by (simp add: is_digit_digit_char)
qed

lemma digits_of_hex_char:
  assumes "0 \<le> n" "c \<in> set (digits_of 16 n)"
  shows "c \<noteq> CHR ''-'' \<and> c \<noteq> CHR ''+'' \<and> c \<noteq> CHR ''x'' \<and> c \<noteq> CHR ''X'' \<and> \<not> is_space c
         \<and> is_digit 16 c"
proof -
  obtain d where "0 \<le> d" "d < 16" "c = digit_char d"
    using digits_of_chars [of 16 n c] assms by auto
  then show ?thesis
    using digit_char_not_minus digit_char_not_plus digit_char_not_x digit_char_not_space
      is_digit_digit_char [of d 16] by simp
qed


lemma BigInt_0x_digits_of:
  assumes "0 \<le> n"
  shows "BigInt_0x (digits_of 16 n) = Inr n"
proof -
  let ?s = "digits_of 16 n"
  have ne: "?s \<noteq> []" by (rule digits_of_nonempty)
  then have "\<not> is_space (last ?s)"
    using digits_of_hex_char [OF assms, of "last ?s"] by simp
  then have "dropWhile is_space (rev ?s) = rev ?s"
    using ne by (cases "rev ?s") (simp_all add: last_rev hd_rev [symmetric] flip: hd_rev)
  then have body: "rev (dropWhile is_space (rev ?s)) = ?s" by simp
  show ?thesis
    using assms ne
    by (simp add: BigInt_0x_def body digits_of_is_digit digits_value_digits_of)
qed

lemma round_to_double_exact:
  "0 \<le> n \<Longrightarrow> n \<le> 9007199254740991 \<Longrightarrow> round_to_double n = Number n"
  by (simp add: round_to_double_def)

lemma parseInt_digits_of:
  assumes "0 \<le> n" "n \<le> 9007199254740991"
  shows "parseInt (digits_of 16 n) 16 = Number n"
proof -
  let ?s = "digits_of 16 n"
  obtain c cs where s: "?s = c # cs" using digits_of_nonempty [of 16 n] by (cases ?s) auto
  have c: "c \<noteq> CHR ''-''" "c \<noteq> CHR ''+''" "\<not> is_space c" "is_digit 16 c"
    using digits_of_hex_char [OF assms(1), of c] s by simp_all
  have x: "take (Suc 0) cs \<noteq> ''x''" "take (Suc 0) cs \<noteq> ''X''"
  proof -
    show "take (Suc 0) cs \<noteq> ''x''"
    proof (cases cs)
      case Nil then show ?thesis by simp
    next
      case (Cons e es)
      then have "e \<noteq> CHR ''x''" using digits_of_hex_char [OF assms(1), of e] s by simp
      then show ?thesis by (simp add: Cons)
    qed
    show "take (Suc 0) cs \<noteq> ''X''"
    proof (cases cs)
      case Nil then show ?thesis by simp
    next
      case (Cons e es)
      then have "e \<noteq> CHR ''X''" using digits_of_hex_char [OF assms(1), of e] s by simp
      then show ?thesis by (simp add: Cons)
    qed
  qed
  have "list_all (is_digit 16) (c # cs)"
    using digits_of_is_digit [of 16 n] assms by (simp add: s)
  then have tw: "takeWhile (is_digit 16) cs = cs" by (simp add: list_all_iff)
  have dv: "digits_value 16 (c # cs) = n"
    using digits_value_digits_of [of 16 n] assms by (simp add: s)
  show ?thesis
    unfolding s using round_to_double_exact [OF assms]
    by (simp add: parseInt_def Let_def c x tw dv)
qed

lemma parseInt_version: "parseInt ''1'' 10 = Number 1"
  by code_simp

lemma split_no_sep: "c \<notin> set p \<Longrightarrow> split c p = [p]"
  by (induction p) auto

lemma split_append_sep: "c \<notin> set p \<Longrightarrow> split c (p @ c # rest) = p # split c rest"
  by (induction p) auto

lemma split_join_7:
  assumes "CHR ''-'' \<notin> set a" "CHR ''-'' \<notin> set b" "CHR ''-'' \<notin> set c" "CHR ''-'' \<notin> set d"
    "CHR ''-'' \<notin> set e" "CHR ''-'' \<notin> set f" "CHR ''-'' \<notin> set g"
  shows "split CHR ''-'' (join ''-'' [a, b, c, d, e, f, g]) = [a, b, c, d, e, f, g]"
  using assms by (simp add: split_append_sep split_no_sep)

lemma digits_of_no_minus: "0 \<le> n \<Longrightarrow> CHR ''-'' \<notin> set (digits_of 16 n)"
  using digits_of_hex_char by blast

lemma decodeNote_encodeNote:
  fixes dn :: DepositNote
  assumes "0 \<le> nullifier dn" "0 \<le> secret dn" "0 \<le> note_value dn" "0 \<le> label dn"
    and "leafIndex dn = Number k" "0 \<le> k" "k \<le> 9007199254740991"
  shows "decodeNote (encodeNote dn) = Inr dn"
proof -
  let ?parts = "[''opaque'', ''1'', digits_of 16 (nullifier dn), digits_of 16 (secret dn),
                 digits_of 16 (note_value dn), digits_of 16 (label dn), digits_of 16 k]"
  have enc: "encodeNote dn = join ''-'' ?parts"
    using assms by (simp add: encodeNote_def toString_def number_toString_16_def)
  have sp: "split CHR ''-'' (join ''-'' ?parts) = ?parts"
    using assms by (intro split_join_7 digits_of_no_minus) simp_all
  show ?thesis
    unfolding enc decodeNote_def sp
    using assms
    by (simp add: parseInt_version BigInt_0x_digits_of parseInt_digits_of)
qed

lemma decodeNote_six_fields:
  "length (split CHR ''-'' s) = 6 \<Longrightarrow> decodeNote s = Inl (Error ''Invalid note format'')"
  by (simp add: decodeNote_def)

text \<open>
  C7. A note whose four field elements are non-negative and whose leaf index is a
  non-negative integer (within the host's exact integers) is encoded as
  \<^verbatim>\<open>opaque-1-<hex nullifier>-<hex secret>-<hex value>-<hex label>-<hex leaf_index>\<close>;
  decoding that string gives the note back, so encoding the decoded note gives the string
  back; and a string with six fields is rejected with \<^verbatim>\<open>Invalid note format\<close>.
\<close>

theorem decodeNote_encodeNote_roundtrip:
  fixes dn :: DepositNote
  assumes "0 \<le> nullifier dn" "0 \<le> secret dn" "0 \<le> note_value dn" "0 \<le> label dn"
    and "leafIndex dn = Number k" "0 \<le> k" "k \<le> 9007199254740991"
  shows "encodeNote dn = ''opaque-1-'' @ toString 16 (nullifier dn) @ ''-''
           @ toString 16 (secret dn) @ ''-'' @ toString 16 (note_value dn) @ ''-''
           @ toString 16 (label dn) @ ''-'' @ toString 16 k \<and>
         decodeNote (encodeNote dn) = Inr dn \<and>
         (case decodeNote (encodeNote dn) of
            Inl e \<Rightarrow> False
          | Inr dn' \<Rightarrow> encodeNote dn' = encodeNote dn) \<and>
         (\<forall>s. length (split CHR ''-'' s) = 6 \<longrightarrow>
              decodeNote s = Inl (Error ''Invalid note format''))"
proof -
  have fmt: "encodeNote dn = ''opaque-1-'' @ toString 16 (nullifier dn) @ ''-''
           @ toString 16 (secret dn) @ ''-'' @ toString 16 (note_value dn) @ ''-''
           @ toString 16 (label dn) @ ''-'' @ toString 16 k"
    using assms(5) by (simp add: encodeNote_def number_toString_16_def)
  have rt: "decodeNote (encodeNote dn) = Inr dn"
    using assms by (rule decodeNote_encodeNote)
  show ?thesis using fmt rt decodeNote_six_fields by simp
qed

theorem decodeNote_encodeNote_roundtrip_witness:
  "encodeNote \<lparr>nullifier = 255, secret = 16, note_value = 1000000000, label = 0,
               leafIndex = Number 10\<rparr> = ''opaque-1-ff-10-3b9aca00-0-a'' \<and>
   decodeNote ''opaque-1-ff-10-3b9aca00-0-a''
     = Inr \<lparr>nullifier = 255, secret = 16, note_value = 1000000000, label = 0,
            leafIndex = Number 10\<rparr> \<and>
   length (split CHR ''-'' ''opaque-1-ff-10-3b9aca00-0'') = 6 \<and>
   decodeNote ''opaque-1-ff-10-3b9aca00-0'' = Inl (Error ''Invalid note format'')"
proof -
  let ?dn = "\<lparr>nullifier = 255, secret = 16, note_value = 1000000000, label = 0,
              leafIndex = Number 10\<rparr>"
  have e: "encodeNote ?dn = ''opaque-1-ff-10-3b9aca00-0-a''" by code_simp
  have l: "length (split CHR ''-'' ''opaque-1-ff-10-3b9aca00-0'') = 6" by code_simp
  have h: "0 \<le> nullifier ?dn" "0 \<le> secret ?dn" "0 \<le> note_value ?dn" "0 \<le> label ?dn"
    "leafIndex ?dn = Number 10" "(0::int) \<le> 10" "(10::int) \<le> 9007199254740991"
    by simp_all
  note t = decodeNote_encodeNote_roundtrip [of ?dn 10, OF h]
  from t have "decodeNote (encodeNote ?dn) = Inr ?dn" by blast
  then have d: "decodeNote ''opaque-1-ff-10-3b9aca00-0-a'' = Inr ?dn"
    unfolding e .
  from t l have r: "decodeNote ''opaque-1-ff-10-3b9aca00-0'' = Inl (Error ''Invalid note format'')"
    by blast
  show ?thesis using e d l r by blast
qed

section \<open>Proof and signal codec: properties\<close>

lemma digits_of_length:
  "2 \<le> r \<Longrightarrow> 0 \<le> n \<Longrightarrow> n < r ^ k \<Longrightarrow> 1 \<le> k \<Longrightarrow> length (digits_of r n) \<le> k"
proof (induction r n arbitrary: k rule: digits_of.induct)
  case (1 radix n)
  show ?case
  proof (cases "n < radix")
    case True
    then have "digits_of radix n = [digit_char n]" by (subst digits_of.simps) simp
    with "1.prems" show ?thesis by simp
  next
    case False
    with "1.prems" have eq: "digits_of radix n
          = digits_of radix (n div radix) @ [digit_char (n mod radix)]"
      by (subst digits_of.simps) simp
    have nn: "0 \<le> n div radix" using "1.prems" by (simp add: pos_imp_zdiv_nonneg_iff)
    have k2: "2 \<le> k"
    proof (rule ccontr)
      assume "\<not> 2 \<le> k"
      with "1.prems"(4) have "k = 1" by simp
      with "1.prems"(3) False show False by simp
    qed
    then obtain j where j: "k = Suc j" and j1: "1 \<le> j" by (cases k) auto
    have "n < radix * radix ^ j" using "1.prems"(3) by (simp add: j)
    moreover have "radix * (n div radix) + n mod radix = n" by simp
    moreover have "0 \<le> n mod radix" using "1.prems"(1) by simp
    ultimately have "radix * (n div radix) < radix * radix ^ j" by linarith
    then have "n div radix < radix ^ j"
      using "1.prems"(1) by (simp add: mult_less_cancel_left_pos)
    then have "length (digits_of radix (n div radix)) \<le> j"
      using "1.IH" [of j] "1.prems"(1) False nn j1 by simp
    then show ?thesis by (simp add: eq j)
  qed
qed

lemma digits_value_zeros:
  "digits_value r (replicate m CHR ''0'' @ s) = digits_value r s"
proof -
  have z: "char_digit CHR ''0'' = Some 0" by (simp add: char_digit_def)
  have "foldl (\<lambda>acc c. acc * r + (case char_digit c of None \<Rightarrow> 0 | Some v \<Rightarrow> v)) 0
          (replicate m CHR ''0'') = 0"
    by (induction m) (simp_all add: z)
  then show ?thesis by (simp add: digits_value_def)
qed

lemma is_digit_16_props:
  assumes "is_digit 16 c"
  shows "\<not> is_space c" "c \<noteq> CHR ''-''" "c \<noteq> CHR ''+''" "c \<noteq> CHR ''x''" "c \<noteq> CHR ''X''"
    "\<exists>v. char_digit c = Some v \<and> 0 \<le> v \<and> v < 16"
proof -
  from assms obtain v where v: "char_digit c = Some v" "v < 16"
    by (auto simp: is_digit_def split: option.splits)
  have rng: "(48 \<le> (of_char c :: int) \<and> of_char c \<le> (57::int)) \<or>
             (97 \<le> (of_char c :: int) \<and> of_char c \<le> (102::int)) \<or>
             (65 \<le> (of_char c :: int) \<and> of_char c \<le> (70::int))"
    using v(1) by (auto simp: char_digit_def Let_def split: if_splits)
  show "\<not> is_space c" using rng by (auto simp: is_space_def)
  show "c \<noteq> CHR ''-''" using rng by auto
  show "c \<noteq> CHR ''+''" using rng by auto
  show "c \<noteq> CHR ''x''" using rng by auto
  show "c \<noteq> CHR ''X''" using rng by auto
  have "0 \<le> v" using v(1) by (auto simp: char_digit_def Let_def split: if_splits)
  with v show "\<exists>v. char_digit c = Some v \<and> 0 \<le> v \<and> v < 16" by blast
qed

lemma two_digits_value:
  assumes "is_digit 16 a" "is_digit 16 b"
  shows "0 \<le> digits_value 16 [a, b]" "digits_value 16 [a, b] < 256"
proof -
  obtain x where x: "char_digit a = Some x" "0 \<le> x" "x < 16"
    using is_digit_16_props(6) [OF assms(1)] by blast
  obtain y where y: "char_digit b = Some y" "0 \<le> y" "y < 16"
    using is_digit_16_props(6) [OF assms(2)] by blast
  have v: "digits_value 16 [a, b] = x * 16 + y" by (simp add: digits_value_def x y)
  show "0 \<le> digits_value 16 [a, b]" "digits_value 16 [a, b] < 256"
    using x y by (simp_all add: v)
qed

lemma parseInt_two_digits:
  assumes "is_digit 16 a" "is_digit 16 b"
  shows "parseInt [a, b] 16 = Number (digits_value 16 [a, b])"
proof -
  have r: "round_to_double (digits_value 16 [a, b]) = Number (digits_value 16 [a, b])"
    using two_digits_value [OF assms] by (intro round_to_double_exact) simp_all
  show ?thesis
    using assms is_digit_16_props [OF assms(1)] is_digit_16_props [OF assms(2)]
    by (simp add: parseInt_def Let_def r)
qed

lemma be_value_snoc: "be_value (bs @ [b]) = be_value bs * 256 + uint b"
  by (simp add: be_value_def)

lemma two_digits_byte:
  assumes "is_digit 16 a" "is_digit 16 b"
  shows "uint (to_uint8 (Number (digits_value 16 [a, b]))) = digits_value 16 [a, b]"
proof -
  obtain x where x: "char_digit a = Some x" "0 \<le> x" "x < 16"
    using is_digit_16_props(6) [OF assms(1)] by blast
  obtain y where y: "char_digit b = Some y" "0 \<le> y" "y < 16"
    using is_digit_16_props(6) [OF assms(2)] by blast
  have v: "digits_value 16 [a, b] = x * 16 + y" by (simp add: digits_value_def x y)
  have r: "0 \<le> x * 16 + y" "x * 16 + y < 256" using x y by simp_all
  have "uint (word_of_int (x * 16 + y) :: 8 word) = take_bit 8 (x * 16 + y)"
    by (simp only: uint_word_of_int_eq) simp
  also have "\<dots> = x * 16 + y" using r by (simp add: take_bit_eq_mod)
  finally show ?thesis by (simp only: v to_uint8_def number.case)
qed

lemma two_elements: "length xs = Suc (Suc 0) \<Longrightarrow> \<exists>a b. xs = [a, b]"
  by (auto simp: length_Suc_conv)

lemma bytes_of_hex:
  "list_all (is_digit 16) hs \<Longrightarrow> length hs = 2 * m \<Longrightarrow>
   be_value (map (\<lambda>i. to_uint8 (parseInt (substr hs (i * 2) 2) 16)) [0..<m])
   = digits_value 16 hs"
proof (induction m arbitrary: hs)
  case 0
  then show ?case by (simp add: be_value_def digits_value_def)
next
  case (Suc m)
  define hs' where "hs' = take (2 * m) hs"
  from Suc.prems(2) obtain a b where ab: "drop (2 * m) hs = [a, b]"
  proof -
    have "length (drop (2 * m) hs) = Suc (Suc 0)" using Suc.prems(2) by simp
    then have "\<exists>a b. drop (2 * m) hs = [a, b]" by (rule two_elements)
    then show ?thesis using that by blast
  qed
  have hs: "hs = hs' @ [a, b]" using ab unfolding hs'_def by (metis append_take_drop_id)
  have len: "length hs' = 2 * m" using Suc.prems(2) by (simp add: hs'_def)
  have dig: "list_all (is_digit 16) hs'" "is_digit 16 a" "is_digit 16 b"
    using Suc.prems(1) by (simp_all add: hs)
  have IH: "be_value (map (\<lambda>i. to_uint8 (parseInt (substr hs' (i * 2) 2) 16)) [0..<m])
            = digits_value 16 hs'"
    using Suc.IH [OF dig(1) len] .
  have same: "map (\<lambda>i. to_uint8 (parseInt (substr hs (i * 2) 2) 16)) [0..<m]
              = map (\<lambda>i. to_uint8 (parseInt (substr hs' (i * 2) 2) 16)) [0..<m]"
  proof (rule map_cong [OF refl])
    fix i assume "i \<in> set [0..<m]"
    then have "i * 2 + 2 \<le> length hs'" using len by simp
    then have "substr hs (i * 2) 2 = substr hs' (i * 2) 2"
      by (simp add: substr_def hs)
    then show "to_uint8 (parseInt (substr hs (i * 2) 2) 16)
               = to_uint8 (parseInt (substr hs' (i * 2) 2) 16)" by simp
  qed
  have lastb: "substr hs (m * 2) 2 = [a, b]"
    using len by (simp add: substr_def hs)
  have dv: "digits_value 16 hs = digits_value 16 hs' * 256 + digits_value 16 [a, b]"
    by (simp add: hs digits_value_def)
  show ?case
    by (simp add: same IH lastb be_value_snoc parseInt_two_digits dig two_digits_byte dv
             del: upt_Suc)
       (simp add: be_value_snoc same IH lastb parseInt_two_digits dig two_digits_byte)
qed


lemma fieldElementToBytes_length [simp]: "length (fieldElementToBytes v) = 32"
  by (simp add: fieldElementToBytes_def)

lemma fieldElementToBytes_value:
  assumes "0 \<le> v" "v < 2 ^ 256"
  shows "be_value (fieldElementToBytes v) = v"
proof -
  let ?d = "digits_of 16 v"
  let ?hex = "padStart 64 CHR ''0'' ?d"
  have "v < 16 ^ 64" using assms(2) by simp
  then have dl: "length ?d \<le> 64" using assms(1) by (intro digits_of_length) simp_all
  have hl: "length ?hex = 2 * 32" using dl by (simp add: padStart_def)
  have z: "is_digit 16 CHR ''0''" by (simp add: is_digit_def char_digit_def)
  have hd: "list_all (is_digit 16) ?hex"
    using digits_of_is_digit [of 16 v] assms(1) z by (auto simp: padStart_def list_all_iff)
  have hv: "digits_value 16 ?hex = v"
    using assms(1) by (simp add: padStart_def digits_value_zeros digits_value_digits_of)
  have "be_value (map (\<lambda>i. to_uint8 (parseInt (substr ?hex (i * 2) 2) 16)) [0..<32])
        = digits_value 16 ?hex"
    using hd hl by (rule bytes_of_hex)
  then show ?thesis using assms(1) by (simp only: fieldElementToBytes_def toString_def Let_def hv)
      simp
qed

lemma uint32_be_length [simp]: "length (uint32_be n) = 4"
  by (simp add: uint32_be_def)

lemma uint8_set_at:
  "length src \<le> length rest \<Longrightarrow>
   uint8_set (pre @ rest) src (length pre) = Inr (pre @ src @ drop (length src) rest)"
  by (simp add: uint8_set_def)

lemma uint8_set_zeros:
  "length pre = off \<Longrightarrow> length src \<le> n \<Longrightarrow>
   uint8_set (pre @ replicate n 0) src off = Inr (pre @ src @ replicate (n - length src) 0)"
  using uint8_set_at [of src "replicate n 0" pre] by simp

lemma uint8_set_zeros_0:
  "length src \<le> n \<Longrightarrow>
   uint8_set (replicate n 0) src 0 = Inr (src @ replicate (n - length src) 0)"
  using uint8_set_zeros [of "[]" 0 src n] by simp

lemma g1PointToBytes_concat:
  "g1PointToBytes (x, y, z) = Inr (fieldElementToBytes x @ fieldElementToBytes y)"
proof -
  have a: "uint8_set (replicate 64 0) (fieldElementToBytes x) 0
           = Inr (fieldElementToBytes x @ replicate 32 0)"
    by (simp add: uint8_set_zeros_0)
  have b: "uint8_set (fieldElementToBytes x @ replicate 32 0) (fieldElementToBytes y) 32
           = Inr (fieldElementToBytes x @ fieldElementToBytes y @ replicate 0 0)"
    using uint8_set_zeros [of "fieldElementToBytes x" 32 "fieldElementToBytes y" 32] by simp
  show ?thesis by (simp add: g1PointToBytes_def and_then_def a b)
qed

lemma g2PointToBytes_concat:
  "g2PointToBytes ((x0, x1), (y0, y1), z)
   = Inr (fieldElementToBytes x0 @ fieldElementToBytes x1
          @ fieldElementToBytes y0 @ fieldElementToBytes y1)"
proof -
  let ?a = "fieldElementToBytes x0" and ?b = "fieldElementToBytes x1"
  let ?c = "fieldElementToBytes y0" and ?d = "fieldElementToBytes y1"
  have a: "uint8_set (replicate 128 0) ?a 0 = Inr (?a @ replicate 96 0)"
    by (simp add: uint8_set_zeros_0)
  have b: "uint8_set (?a @ replicate 96 0) ?b 32 = Inr (?a @ ?b @ replicate 64 0)"
    using uint8_set_zeros [of ?a 32 ?b 96] by simp
  have c: "uint8_set (?a @ ?b @ replicate 64 0) ?c 64 = Inr (?a @ ?b @ ?c @ replicate 32 0)"
    using uint8_set_zeros [of "?a @ ?b" 64 ?c 64] by simp
  have d: "uint8_set (?a @ ?b @ ?c @ replicate 32 0) ?d 96 = Inr (?a @ ?b @ ?c @ ?d)"
    using uint8_set_zeros [of "?a @ ?b @ ?c" 96 ?d 32] by simp
  show ?thesis by (simp add: g2PointToBytes_def and_then_def a b c d)
qed

lemma serializeProofForSoroban_concat:
  "serializeProofForSoroban
     \<lparr>pi_a = (ax, ay, az), pi_b = ((bx0, bx1), (by0, by1), bz), pi_c = (cx, cy, cz),
      protocol = pr, curve = cu\<rparr>
   = Inr (fieldElementToBytes ax @ fieldElementToBytes ay
          @ fieldElementToBytes bx0 @ fieldElementToBytes bx1
          @ fieldElementToBytes by0 @ fieldElementToBytes by1
          @ fieldElementToBytes cx @ fieldElementToBytes cy)"
proof -
  let ?A = "fieldElementToBytes ax @ fieldElementToBytes ay"
  let ?B = "fieldElementToBytes bx0 @ fieldElementToBytes bx1
            @ fieldElementToBytes by0 @ fieldElementToBytes by1"
  let ?C = "fieldElementToBytes cx @ fieldElementToBytes cy"
  have a: "uint8_set (replicate 256 0) ?A 0 = Inr (?A @ replicate 192 0)"
    by (simp add: uint8_set_zeros_0)
  have b: "uint8_set (?A @ replicate 192 0) ?B 64 = Inr (?A @ ?B @ replicate 64 0)"
    using uint8_set_zeros [of ?A 64 ?B 192] by simp
  have c: "uint8_set (?A @ ?B @ replicate 64 0) ?C 192 = Inr (?A @ ?B @ ?C)"
    using uint8_set_zeros [of "?A @ ?B" 192 ?C 64] by simp
  show ?thesis
    using a b c
    by (simp add: serializeProofForSoroban_def and_then_def g1PointToBytes_concat
        g2PointToBytes_concat)
qed

lemma serializePublicSignals_loop_concat:
  "i \<le> length sigs \<Longrightarrow> length pre = 4 + i * 32 \<Longrightarrow>
   serializePublicSignals_loop sigs i (pre @ replicate ((length sigs - i) * 32) 0)
   = Inr (pre @ concat (map fieldElementToBytes (drop i sigs)))"
proof (induction "length sigs - i" arbitrary: i pre)
  case 0
  then show ?case by (subst serializePublicSignals_loop.simps) simp
next
  case (Suc k)
  then have lt: "i < length sigs" and k: "length sigs - Suc i = k" by simp_all
  let ?f = "fieldElementToBytes (sigs ! i)"
  have rep: "(length sigs - i) * 32 = 32 + k * 32" using Suc.hyps(2) by simp
  have st: "uint8_set (pre @ replicate ((length sigs - i) * 32) 0) ?f (4 + i * 32)
            = Inr ((pre @ ?f) @ replicate (k * 32) 0)"
    using uint8_set_zeros [of pre "4 + i * 32" ?f "32 + k * 32"] Suc.prems(2)
    by (simp add: rep)
  have IH: "serializePublicSignals_loop sigs (Suc i) (pre @ ?f @ replicate (k * 32) 0)
            = Inr (pre @ ?f @ concat (map fieldElementToBytes (drop (Suc i) sigs)))"
    using Suc.hyps(1) [of "Suc i" "pre @ ?f"] k lt Suc.prems(2) by simp
  have dr: "drop i sigs = sigs ! i # drop (Suc i) sigs" using lt by (simp add: Cons_nth_drop_Suc)
  show ?case
    using lt
    by (subst serializePublicSignals_loop.simps) (simp add: st and_then_def IH dr)
qed

lemma serializePublicSignalsForSoroban_concat:
  "serializePublicSignalsForSoroban sigs
   = Inr (uint32_be (int (length sigs)) @ concat (map fieldElementToBytes sigs))"
proof -
  have h: "uint8_set (replicate (4 + length sigs * 32) 0) (uint32_be (int (length sigs))) 0
           = Inr (uint32_be (int (length sigs)) @ replicate (length sigs * 32) 0)"
    using uint8_set_zeros_0 [of "uint32_be (int (length sigs))" "4 + length sigs * 32"]
    by (simp add: uint32_be_def)
  have l: "serializePublicSignals_loop sigs 0
             (uint32_be (int (length sigs)) @ replicate ((length sigs - 0) * 32) 0)
           = Inr (uint32_be (int (length sigs)) @ concat (map fieldElementToBytes (drop 0 sigs)))"
    by (rule serializePublicSignals_loop_concat) (simp_all add: uint32_be_def)
  show ?thesis using h l by (simp add: serializePublicSignalsForSoroban_def and_then_def)
qed

lemma chunk_of_concat:
  "(\<And>x. length (f x) = n) \<Longrightarrow> i < length xs \<Longrightarrow>
   take n (drop (i * n) (concat (map f xs))) = f (xs ! i)"
proof (induction xs arbitrary: i)
  case Nil
  then show ?case by simp
next
  case (Cons x xs)
  show ?case
  proof (cases i)
    case 0
    then show ?thesis using Cons.prems(1) by simp
  next
    case (Suc j)
    then show ?thesis using Cons.prems Cons.IH [of j] by simp
  qed
qed

lemma signal_word:
  assumes "i < length sigs" "serializePublicSignalsForSoroban sigs = Inr out"
  shows "take 32 (drop (4 + i * 32) out) = fieldElementToBytes (sigs ! i)"
proof -
  have out: "out = uint32_be (int (length sigs)) @ concat (map fieldElementToBytes sigs)"
    using assms(2) by (simp add: serializePublicSignalsForSoroban_concat)
  have len: "length (uint32_be (int (length sigs))) = 4" by (simp add: uint32_be_def)
  have "drop (4 + i * 32) out = drop (i * 32) (concat (map fieldElementToBytes sigs))"
    by (simp add: out len)
  then show ?thesis
    using chunk_of_concat [of fieldElementToBytes 32 i sigs] assms(1) by simp
qed


text \<open>
  C6 (as amended). The encoders do not reduce: for every value \<open>v\<close> with
  \<open>0 \<le> v < 2 ^ 256\<close> the 32-byte big-endian word emitted by fieldElementToBytes is \<open>v\<close>
  itself. So for a value already in \<open>[0, field modulus)\<close> the word equals the value
  reduced modulo the BN254 scalar field and is in range. Every 32-byte word of the
  serialized public signals and of the serialized proof is the word of fieldElementToBytes
  for the corresponding input.
\<close>

theorem fieldElementToBytes_word:
  "(0 \<le> v \<and> v < SNARK_SCALAR_FIELD \<longrightarrow>
      length (fieldElementToBytes v) = 32 \<and>
      be_value (fieldElementToBytes v) = v mod SNARK_SCALAR_FIELD \<and>
      0 \<le> be_value (fieldElementToBytes v) \<and>
      be_value (fieldElementToBytes v) < SNARK_SCALAR_FIELD) \<and>
   (0 \<le> v \<and> v < 2 ^ 256 \<longrightarrow> be_value (fieldElementToBytes v) = v) \<and>
   (i < length sigs \<longrightarrow>
      (\<exists>out. serializePublicSignalsForSoroban sigs = Inr out \<and>
             take 32 (drop (4 + i * 32) out) = fieldElementToBytes (sigs ! i))) \<and>
   serializeProofForSoroban
     \<lparr>pi_a = (ax, ay, az), pi_b = ((bx0, bx1), (by0, by1), bz), pi_c = (cx, cy, cz),
      protocol = pr, curve = cu\<rparr>
   = Inr (fieldElementToBytes ax @ fieldElementToBytes ay
          @ fieldElementToBytes bx0 @ fieldElementToBytes bx1
          @ fieldElementToBytes by0 @ fieldElementToBytes by1
          @ fieldElementToBytes cx @ fieldElementToBytes cy)"
proof -
  have p: "SNARK_SCALAR_FIELD < 2 ^ 256" by (simp add: SNARK_SCALAR_FIELD_def)
  have a: "be_value (fieldElementToBytes v) = v" if "0 \<le> v" "v < 2 ^ 256"
    using that by (rule fieldElementToBytes_value)
  have b: "be_value (fieldElementToBytes v) = v mod SNARK_SCALAR_FIELD \<and>
           0 \<le> be_value (fieldElementToBytes v) \<and>
           be_value (fieldElementToBytes v) < SNARK_SCALAR_FIELD"
    if "0 \<le> v" "v < SNARK_SCALAR_FIELD"
  proof -
    have "v < 2 ^ 256" using that(2) p by linarith
    then have "be_value (fieldElementToBytes v) = v" using that(1) a by blast
    then show ?thesis using that by simp
  qed
  have c: "\<exists>out. serializePublicSignalsForSoroban sigs = Inr out \<and>
             take 32 (drop (4 + i * 32) out) = fieldElementToBytes (sigs ! i)"
    if "i < length sigs"
    using that signal_word [of i sigs] serializePublicSignalsForSoroban_concat [of sigs]
    by blast
  show ?thesis
    using a b c serializeProofForSoroban_concat fieldElementToBytes_length by blast
qed

theorem fieldElementToBytes_word_witness:
  "(0::int) \<le> 258 \<and> 258 < SNARK_SCALAR_FIELD \<and> (1::nat) < length [5, 258 :: int] \<and>
   be_value (fieldElementToBytes 258) = 258 mod SNARK_SCALAR_FIELD \<and>
   be_value (fieldElementToBytes 258) = 258 \<and>
   (\<exists>out. serializePublicSignalsForSoroban [5, 258] = Inr out \<and>
          take 32 (drop 36 out) = fieldElementToBytes 258)"
  using fieldElementToBytes_word [of 258 1 "[5, 258]"]
  by (simp add: SNARK_SCALAR_FIELD_def)

text \<open>
  C6 as stated fails for a value outside the field: the field modulus itself is emitted as
  it is, not as 0, so the emitted word is not below the modulus.
\<close>

theorem fieldElementToBytes_unreduced_counterexample:
  "be_value (fieldElementToBytes SNARK_SCALAR_FIELD)
     \<noteq> SNARK_SCALAR_FIELD mod SNARK_SCALAR_FIELD \<and>
   \<not> be_value (fieldElementToBytes SNARK_SCALAR_FIELD) < SNARK_SCALAR_FIELD"
proof -
  have "(0::int) \<le> SNARK_SCALAR_FIELD" "SNARK_SCALAR_FIELD < 2 ^ 256"
    by (simp_all add: SNARK_SCALAR_FIELD_def)
  then have "be_value (fieldElementToBytes SNARK_SCALAR_FIELD) = SNARK_SCALAR_FIELD"
    by (rule fieldElementToBytes_value)
  then show ?thesis by (simp add: SNARK_SCALAR_FIELD_def)
qed
lemma push_zeros_eq: "push_zeros n xs = xs @ replicate (n - length xs) (Some 0)"
proof (induction n xs rule: push_zeros.induct)
  case (1 n xs)
  show ?case
  proof (cases "length xs < n")
    case True
    then have "push_zeros n xs = push_zeros n (xs @ [Some 0])"
      by (subst push_zeros.simps) simp
    also have "\<dots> = (xs @ [Some 0]) @ replicate (n - length (xs @ [Some 0])) (Some 0)"
      using "1.IH" True by simp
    also have "\<dots> = xs @ replicate (n - length xs) (Some 0)"
      using True by (simp add: replicate_Suc [symmetric] Suc_diff_Suc del: replicate_Suc)
    finally show ?thesis .
  next
    case False
    then show ?thesis by (subst push_zeros.simps) simp
  qed
qed

lemma map_toString_defined: "map_toString (map Some vs) = Inr (map (toString 10) vs)"
  by (induction vs) (simp_all add: and_then_def slot_toString_def)

lemma push_zeros_defined:
  "push_zeros n (map Some vs) = map Some (vs @ replicate (n - length vs) 0)"
  by (simp add: push_zeros_eq)

lemma createWithdrawCircuitInput_defined:
  assumes "params_stateRoot params = Some r" "params_stateSiblings params = map Some sibs"
  shows "\<exists>ci. createWithdrawCircuitInput params = Inr ci \<and>
           in_stateSiblings ci
             = map (toString 10) (take 8 (sibs @ replicate (8 - length sibs) 0)) \<and>
           length (in_stateSiblings ci) = 8"
proof -
  have s: "take 8 (push_zeros 8 (map Some sibs))
           = map Some (take 8 (sibs @ replicate (8 - length sibs) 0))"
    by (simp only: push_zeros_defined take_map)
  have l: "push_zeros 2 (map Some (params_labelSiblings params))
           = map Some (params_labelSiblings params
                       @ replicate (2 - length (params_labelSiblings params)) 0)"
    by (rule push_zeros_defined)
  show ?thesis
    unfolding createWithdrawCircuitInput_def Let_def assms s l map_toString_defined
    by (simp add: and_then_def slot_toString_def)
qed

lemma verifyProof_wrong_length:
  "length siblings \<noteq> depth t \<Longrightarrow>
   verifyProof poseidon t leaf idx siblings root = Inr False"
  by (simp add: verifyProof_def)
text \<open>
  C8 (as amended). A sibling list whose length differs from the depth of the tree makes
  verifyProof return false; nothing is raised. createWithdrawCircuitInput does not raise
  on a list of siblings of any length: it pads a list of fewer than 8 siblings with zeros
  and keeps the first 8 of a longer one.
\<close>

theorem depth_mismatch_not_raised:
  "(length siblings \<noteq> depth t \<longrightarrow>
      verifyProof poseidon t leaf idx siblings root = Inr False) \<and>
   (params_stateRoot params = Some r \<and> params_stateSiblings params = map Some sibs \<longrightarrow>
      (\<exists>ci. createWithdrawCircuitInput params = Inr ci \<and>
            in_stateSiblings ci
              = map (toString 10) (take 8 (sibs @ replicate (8 - length sibs) 0)) \<and>
            length (in_stateSiblings ci) = 8))"
  using verifyProof_wrong_length createWithdrawCircuitInput_defined by blast

theorem depth_mismatch_not_raised_witness:
  "length [Some 3 :: jsval] \<noteq> depth \<lparr>leaves = [5], depth = 2\<rparr> \<and>
   verifyProof (\<lambda>xs. sum_list xs + 1) \<lparr>leaves = [5], depth = 2\<rparr> 5 0 [Some 3] (Some 9)
     = Inr False \<and>
   (\<exists>ci. createWithdrawCircuitInput
            \<lparr>params_withdrawnValue = 1, params_stateRoot = Some 2,
             params_associationRoot = 3, params_label = 4, params_value = 5,
             params_nullifier = 6, params_secret = 7,
             params_stateSiblings = map Some [11, 12], params_stateIndex = 0,
             params_labelIndex = 0, params_labelSiblings = []\<rparr> = Inr ci \<and>
         length (in_stateSiblings ci) = 8)"
  using depth_mismatch_not_raised
    [of "[Some 3]" "\<lparr>leaves = [5], depth = 2\<rparr>" "\<lambda>xs. sum_list xs + 1" 5 0 "Some 9"
        "\<lparr>params_withdrawnValue = 1, params_stateRoot = Some 2,
          params_associationRoot = 3, params_label = 4, params_value = 5,
          params_nullifier = 6, params_secret = 7,
          params_stateSiblings = map Some [11, 12], params_stateIndex = 0,
          params_labelIndex = 0, params_labelSiblings = []\<rparr>" 2 "[11, 12]"]
  by simp blast

text \<open>
  C8 as stated fails: with one sibling at depth 2, verifyProof returns false instead of
  raising, and createWithdrawCircuitInput turns two siblings into eight by padding with
  zeros and nine siblings into eight by dropping the last.
\<close>

theorem depth_mismatch_counterexample:
  "verifyProof (\<lambda>xs. sum_list xs + 1) \<lparr>leaves = [5], depth = 2\<rparr> 5 0 [Some 3] (Some 9)
     = Inr False \<and>
   map_sum id in_stateSiblings
     (createWithdrawCircuitInput
        \<lparr>params_withdrawnValue = 1, params_stateRoot = Some 2,
         params_associationRoot = 3, params_label = 4, params_value = 5,
         params_nullifier = 6, params_secret = 7,
         params_stateSiblings = [Some 11, Some 12], params_stateIndex = 0,
         params_labelIndex = 0, params_labelSiblings = []\<rparr>)
     = Inr [''11'', ''12'', ''0'', ''0'', ''0'', ''0'', ''0'', ''0''] \<and>
   map_sum id in_stateSiblings
     (createWithdrawCircuitInput
        \<lparr>params_withdrawnValue = 1, params_stateRoot = Some 2,
         params_associationRoot = 3, params_label = 4, params_value = 5,
         params_nullifier = 6, params_secret = 7,
         params_stateSiblings = [Some 21, Some 22, Some 23, Some 24, Some 25, Some 26,
                                 Some 27, Some 28, Some 29],
         params_stateIndex = 0, params_labelIndex = 0, params_labelSiblings = []\<rparr>)
     = Inr [''21'', ''22'', ''23'', ''24'', ''25'', ''26'', ''27'', ''28'']"
  by code_simp

section \<open>Privacy pool service: properties\<close>

lemma isNoteSpent_loop_mem: "isNoteSpent_loop used nb \<longleftrightarrow> nb \<in> set used"
  by (induction used) auto

lemma isNoteSpent_try_cases:
  "isNoteSpent_try poseidon env s =
     (case decodeNote s of
        Inl e \<Rightarrow> Inl e
      | Inr dn \<Rightarrow>
          (case get_nullifiers env of
             Inl e \<Rightarrow> Inl e
           | Inr None \<Rightarrow> Inr False
           | Inr (Some used) \<Rightarrow>
               Inr (bigintToBuffer (poseidonHash poseidon [nullifier dn]) \<in> set used)))"
  by (simp add: isNoteSpent_try_def and_then_def Let_def isNoteSpent_loop_mem
           split: sum.splits option.splits)

text \<open>
  C10. isNoteSpent returns true exactly when the note decodes, the nullifier list is
  fetched, and the buffer of the note's nullifier hash occurs in that list. In every other
  case it returns false: when the note string is malformed, when the fetch raises, when
  the fetch gives no list, and whenever anything in the body raises; the result is a
  boolean, never an error.
\<close>

theorem isNoteSpent_only_when_listed:
  "(isNoteSpent poseidon env s \<longleftrightarrow>
      (\<exists>dn used. decodeNote s = Inr dn \<and> get_nullifiers env = Inr (Some used) \<and>
                 bigintToBuffer (poseidonHash poseidon [nullifier dn]) \<in> set used)) \<and>
   (isl (decodeNote s) \<longrightarrow> \<not> isNoteSpent poseidon env s) \<and>
   (isl (get_nullifiers env) \<longrightarrow> \<not> isNoteSpent poseidon env s) \<and>
   (get_nullifiers env = Inr None \<longrightarrow> \<not> isNoteSpent poseidon env s) \<and>
   (isl (isNoteSpent_try poseidon env s) \<longrightarrow> \<not> isNoteSpent poseidon env s)"
  unfolding isNoteSpent_def isNoteSpent_try_cases
  by (auto split: sum.splits option.splits)

theorem isNoteSpent_only_when_listed_witness:
  "isNoteSpent (\<lambda>xs. sum_list xs + 1)
     \<lparr>get_commitments = Inr None, get_association_root = Inr None,
      get_nullifiers = Inr (Some [bigintToBuffer 9, bigintToBuffer 3]),
      withdraw_signAndSend = (\<lambda>to p s. Inl (Error ''offline'')),
      generateWithdrawProof = (\<lambda>ci. Inl (Error ''no prover''))\<rparr>
     ''opaque-1-2-3-3b9aca00-4-1'' \<and>
   \<not> isNoteSpent (\<lambda>xs. sum_list xs + 1)
     \<lparr>get_commitments = Inr None, get_association_root = Inr None,
      get_nullifiers = Inr (Some [bigintToBuffer 9, bigintToBuffer 3]),
      withdraw_signAndSend = (\<lambda>to p s. Inl (Error ''offline'')),
      generateWithdrawProof = (\<lambda>ci. Inl (Error ''no prover''))\<rparr>
     ''opaque-1-2-3-3b9aca00-4'' \<and>
   \<not> isNoteSpent (\<lambda>xs. sum_list xs + 1)
     \<lparr>get_commitments = Inr None, get_association_root = Inr None,
      get_nullifiers = Inl (Error ''offline''),
      withdraw_signAndSend = (\<lambda>to p s. Inl (Error ''offline'')),
      generateWithdrawProof = (\<lambda>ci. Inl (Error ''no prover''))\<rparr>
     ''opaque-1-2-3-3b9aca00-4-1''"
proof -
  let ?P = "\<lambda>xs :: int list. sum_list xs + 1"
  let ?env = "\<lparr>get_commitments = Inr None, get_association_root = Inr None,
      get_nullifiers = Inr (Some [bigintToBuffer 9, bigintToBuffer 3]),
      withdraw_signAndSend = (\<lambda>to p s. Inl (Error ''offline'')),
      generateWithdrawProof = (\<lambda>ci. Inl (Error ''no prover''))\<rparr>"
  let ?off = "\<lparr>get_commitments = Inr None, get_association_root = Inr None,
      get_nullifiers = Inl (Error ''offline''),
      withdraw_signAndSend = (\<lambda>to p s. Inl (Error ''offline'')),
      generateWithdrawProof = (\<lambda>ci. Inl (Error ''no prover''))\<rparr>"
  let ?dn = "\<lparr>nullifier = 2, secret = 3, note_value = 1000000000, label = 4,
              leafIndex = Number 1\<rparr>"
  have d: "decodeNote ''opaque-1-2-3-3b9aca00-4-1'' = Inr ?dn" by code_simp
  have m: "bigintToBuffer (poseidonHash ?P [nullifier ?dn])
           \<in> set [bigintToBuffer 9, bigintToBuffer 3]" by simp
  have b: "isl (decodeNote ''opaque-1-2-3-3b9aca00-4'')" by code_simp
  have a1: "isNoteSpent ?P ?env ''opaque-1-2-3-3b9aca00-4-1''"
    using isNoteSpent_only_when_listed [of ?P ?env "''opaque-1-2-3-3b9aca00-4-1''"] d m
    by simp
  have a2: "\<not> isNoteSpent ?P ?env ''opaque-1-2-3-3b9aca00-4''"
    using isNoteSpent_only_when_listed [of ?P ?env "''opaque-1-2-3-3b9aca00-4''"] b
    by blast
  have a3: "\<not> isNoteSpent ?P ?off ''opaque-1-2-3-3b9aca00-4-1''"
    using isNoteSpent_only_when_listed [of ?P ?off "''opaque-1-2-3-3b9aca00-4-1''"]
    by simp
  show ?thesis using a1 a2 a3 by blast
qed

lemma handleWithdraw_fetch_root:
  "handleWithdraw_fetch poseidon env s = Inr (dn, idx, mp, ar) \<Longrightarrow>
   \<exists>buf. get_association_root env = Inr (Some buf) \<and> bufferToBigint buf = Inr ar"
  by (auto simp: handleWithdraw_fetch_def fetchAssociationRoot_def and_then_def Let_def
           split: sum.splits if_splits option.splits)

lemma handleWithdraw_zero_root_raises:
  assumes "handleWithdraw_fetch poseidon env s = Inr (dn, idx, mp, 0)"
  shows "handleWithdraw poseidon env s to =
           (\<lparr>success = False, txHash = None,
             error_message = Some (Error
               ''Association root not set. Admin must call set_association_root first.'')\<rparr>,
            [])"
  using assms
  by (simp add: handleWithdraw_def handleWithdraw_prepare_def handleWithdraw_submit_def
        and_then_def)

lemma handleWithdraw_zero_root_no_transaction:
  assumes "get_association_root env = Inr (Some buf)" "bufferToBigint buf = Inr 0"
  shows "\<not> success (fst (handleWithdraw poseidon env s to)) \<and>
         snd (handleWithdraw poseidon env s to) = []"
proof (cases "handleWithdraw_fetch poseidon env s")
  case (Inl e)
  then show ?thesis
    by (simp add: handleWithdraw_def handleWithdraw_prepare_def handleWithdraw_submit_def
          and_then_def)
next
  case (Inr r)
  obtain dn idx mp ar where r: "r = (dn, idx, mp, ar)" by (cases r) auto
  from Inr r handleWithdraw_fetch_root [of poseidon env s dn idx mp ar] assms
  have "ar = 0" by auto
  with Inr r show ?thesis using handleWithdraw_zero_root_raises [of poseidon env s dn idx mp to]
    by simp
qed


lemma serializeProofForSoroban_returns:
  "\<exists>bytes. serializeProofForSoroban gp = Inr bytes"
proof -
  obtain a b c pr cu where p: "gp = \<lparr>pi_a = a, pi_b = b, pi_c = c, protocol = pr, curve = cu\<rparr>"
    by (cases gp) auto
  obtain ax ay az where a: "a = (ax, ay, az)" by (cases a) auto
  obtain bx0 bx1 by0 by1 bz where b: "b = ((bx0, bx1), (by0, by1), bz)"
    by (cases b) auto
  obtain cx cy cz where c: "c = (cx, cy, cz)" by (cases c) auto
  show ?thesis unfolding p a b c serializeProofForSoroban_concat by blast
qed

lemma handleWithdraw_2_submits:
  assumes f: "handleWithdraw_fetch poseidon env s
                = Inr (dn, idx, (map Some sibs, Some root, i), ar)"
    and g: "\<And>ci. generateWithdrawProof env ci = Inr (gp, sigs)"
    and w: "\<And>p ps. withdraw_signAndSend env to p ps
                = Inr \<lparr>send_result = None, send_txHash = h\<rparr>"
  shows "fst (handleWithdraw_2 poseidon env s to)
           = \<lparr>success = True, txHash = h, error_message = None\<rparr> \<and>
         length (snd (handleWithdraw_2 poseidon env s to)) = 1"
proof -
  obtain mockRoot labelIndex labelSiblings
    where m: "getMockAssociationProof poseidon (label dn) = (mockRoot, labelIndex, labelSiblings)"
    by (cases "getMockAssociationProof poseidon (label dn)") auto
  obtain ci where ci: "handleWithdraw_circuitInput dn idx (map Some sibs, Some root, i) ar
                         labelIndex labelSiblings = Inr ci"
    unfolding handleWithdraw_circuitInput_def
    using createWithdrawCircuitInput_defined
      [of "\<lparr>params_withdrawnValue = FIXED_AMOUNT_STROOPS, params_stateRoot = Some root,
            params_associationRoot = ar, params_label = label dn,
            params_value = note_value dn, params_nullifier = nullifier dn,
            params_secret = secret dn, params_stateSiblings = map Some sibs,
            params_stateIndex = idx, params_labelIndex = labelIndex,
            params_labelSiblings = labelSiblings\<rparr>" root sibs]
    by auto
  obtain pb where pb: "serializeProofForSoroban gp = Inr pb"
    using serializeProofForSoroban_returns by blast
  have ps: "serializePublicSignalsForSoroban sigs
            = Inr (uint32_be (int (length sigs)) @ concat (map fieldElementToBytes sigs))"
    by (rule serializePublicSignalsForSoroban_concat)
  have "handleWithdraw_2_prepare poseidon env s
        = Inr (pb, uint32_be (int (length sigs)) @ concat (map fieldElementToBytes sigs))"
    by (simp add: handleWithdraw_2_prepare_def f and_then_def m ci g pb ps)
  then show ?thesis
    by (simp add: handleWithdraw_2_def handleWithdraw_submit_def w)
qed

text \<open>
  C9. The first copy of handleWithdraw rejects a zero association root
  (\<open>handleWithdraw_zero_root_no_transaction\<close>); the second copy does not. With one
  deposit, its note, an association root of 32 zero bytes and a prover that answers, the
  first copy fails with \<^verbatim>\<open>Association root not set\<close> and builds no transaction, and the
  second copy builds the withdraw transaction and reports success.
\<close>

theorem handleWithdraw_2_zero_root_accepted:
  "(let poseidon = (\<lambda>xs. sum_list xs + 1);
        env = \<lparr>get_commitments = Inr (Some [replicate 28 0 @ [59, 154, 202, 12]]),
               get_association_root = Inr (Some (replicate 32 0)),
               get_nullifiers = Inr (Some []),
               withdraw_signAndSend =
                 (\<lambda>to p s. Inr \<lparr>send_result = None, send_txHash = Some ''abc''\<rparr>),
               generateWithdrawProof =
                 (\<lambda>ci. Inr (\<lparr>pi_a = (1, 2, 1), pi_b = ((3, 4), (5, 6), (1, 0)),
                               pi_c = (7, 8, 1), protocol = ''groth16'',
                               curve = ''bn128''\<rparr>,
                             [3, 1000000000, 1000000267, 0]))\<rparr>
    in bufferToBigint (replicate 32 0) = Inr 0 \<and>
       handleWithdraw poseidon env ''opaque-1-2-3-3b9aca00-4-0'' ''GABC''
         = (\<lparr>success = False, txHash = None,
              error_message = Some (Error
                ''Association root not set. Admin must call set_association_root first.'')\<rparr>,
            []) \<and>
       fst (handleWithdraw_2 poseidon env ''opaque-1-2-3-3b9aca00-4-0'' ''GABC'')
         = \<lparr>success = True, txHash = Some ''abc'', error_message = None\<rparr> \<and>
       length (snd (handleWithdraw_2 poseidon env ''opaque-1-2-3-3b9aca00-4-0'' ''GABC''))
         = 1)"
proof -
  let ?P = "\<lambda>xs :: int list. sum_list xs + 1"
  let ?gp = "\<lparr>pi_a = (1, 2, 1), pi_b = ((3, 4), (5, 6), (1, 0)),
                pi_c = (7, 8, 1), protocol = ''groth16'', curve = ''bn128''\<rparr>"
  let ?env = "\<lparr>get_commitments = Inr (Some [replicate 28 0 @ [59, 154, 202, 12]]),
               get_association_root = Inr (Some (replicate 32 0)),
               get_nullifiers = Inr (Some []),
               withdraw_signAndSend =
                 (\<lambda>to p s. Inr \<lparr>send_result = None, send_txHash = Some ''abc''\<rparr>),
               generateWithdrawProof =
                 (\<lambda>ci. Inr (?gp, [3, 1000000000, 1000000267, 0]))\<rparr>"
  let ?dn = "\<lparr>nullifier = 2, secret = 3, note_value = 1000000000, label = 4,
              leafIndex = Number 0\<rparr>"
  have z: "bufferToBigint (replicate 32 0) = Inr 0" by code_simp
  have f: "handleWithdraw_fetch ?P ?env ''opaque-1-2-3-3b9aca00-4-0''
           = Inr (?dn, 0, (map Some [0, 1, 3, 7, 15, 31, 63, 127], Some 1000000267, 0), 0)"
    by code_simp
  have v1: "handleWithdraw ?P ?env ''opaque-1-2-3-3b9aca00-4-0'' ''GABC''
         = (\<lparr>success = False, txHash = None,
              error_message = Some (Error
                ''Association root not set. Admin must call set_association_root first.'')\<rparr>,
            [])"
    using f by (rule handleWithdraw_zero_root_raises)
  have v2: "fst (handleWithdraw_2 ?P ?env ''opaque-1-2-3-3b9aca00-4-0'' ''GABC'')
              = \<lparr>success = True, txHash = Some ''abc'', error_message = None\<rparr> \<and>
            length (snd (handleWithdraw_2 ?P ?env ''opaque-1-2-3-3b9aca00-4-0'' ''GABC'')) = 1"
    using f by (rule handleWithdraw_2_submits) simp_all
  show ?thesis unfolding Let_def using z v1 v2 by blast
qed

end
